theory Spec2Isabelle
  imports Complex_Main "HOL-Library.AList" "HOL-Library.Multiset"
begin

section \<open>Numbers\<close>

text \<open>
  The numbers of the source are IEEE 754 binary64 values. A finite one is held as the
  rational it equals (there is one zero); the other values are the two infinities and
  \<open>NaN\<close>.
\<close>

datatype number = Fin rat | PInf | MInf | NaN

text \<open>\<open>floorlog2 a\<close> is the integer part of the binary logarithm of \<open>a \<ge> 1\<close>.\<close>

function floorlog2 :: "int \<Rightarrow> int" where
  "floorlog2 a = (if a \<le> 1 then 0 else floorlog2 (a div 2) + 1)"
  by pat_completeness auto
termination
  by (relation "measure nat") auto

text \<open>The binary exponent of \<open>x > 0\<close>: \<open>2 ^ expo x \<le> x < 2 ^ (expo x + 1)\<close>.\<close>

definition expo :: "rat \<Rightarrow> int" where
  "expo x = (if 1 \<le> x then floorlog2 \<lfloor>x\<rfloor> else - (floorlog2 (\<lceil>1 / x\<rceil> - 1) + 1))"

definition roundHalfEven :: "rat \<Rightarrow> int" where
  "roundHalfEven m =
     (let f = \<lfloor>m\<rfloor>; r = m - of_int f
      in if r < 1/2 then f else if 1/2 < r then f + 1 else if even f then f else f + 1)"

text \<open>
  The distance between neighbouring binary64 values around \<open>x\<close>: 53 significant bits,
  and below \<open>2 ^ -1022\<close> the fixed distance \<open>2 ^ -1074\<close> of the subnormal values.
\<close>

definition quantum :: "rat \<Rightarrow> rat" where
  "quantum x = 2 powi (max (expo \<bar>x\<bar>) (- 1022) - 52)"

text \<open>
  The binary64 value of a real result: round to nearest, ties to even, and an infinity
  from \<open>2 ^ 1024\<close> on. It is also the number that a numeric literal denotes.
\<close>

definition fl :: "rat \<Rightarrow> number" where
  "fl x =
     (if x = 0 then Fin 0
      else let q = quantum x;
               r = of_int (roundHalfEven (\<bar>x\<bar> / q)) * q
           in if 2 powi 1024 \<le> r then (if 0 < x then PInf else MInf)
              else Fin (if 0 < x then r else - r))"

fun js_neg :: "number \<Rightarrow> number" where
  "js_neg (Fin x) = Fin (- x)"
| "js_neg PInf = MInf"
| "js_neg MInf = PInf"
| "js_neg NaN = NaN"

text \<open>\<open>a + b\<close>, \<open>a - b\<close>, \<open>a * b\<close> and \<open>a / b\<close> (a zero divisor is \<open>+0\<close>).\<close>

fun js_add :: "number \<Rightarrow> number \<Rightarrow> number" where
  "js_add (Fin x) (Fin y) = fl (x + y)"
| "js_add NaN b = NaN"
| "js_add a NaN = NaN"
| "js_add PInf MInf = NaN"
| "js_add MInf PInf = NaN"
| "js_add PInf b = PInf"
| "js_add a PInf = PInf"
| "js_add MInf b = MInf"
| "js_add a MInf = MInf"

definition js_sub :: "number \<Rightarrow> number \<Rightarrow> number" where
  "js_sub a b = js_add a (js_neg b)"

fun js_mul :: "number \<Rightarrow> number \<Rightarrow> number" where
  "js_mul (Fin x) (Fin y) = fl (x * y)"
| "js_mul NaN b = NaN"
| "js_mul a NaN = NaN"
| "js_mul (Fin x) b = (if x = 0 then NaN else if 0 < x then b else js_neg b)"
| "js_mul a (Fin y) = (if y = 0 then NaN else if 0 < y then a else js_neg a)"
| "js_mul PInf b = b"
| "js_mul MInf b = js_neg b"

fun js_div :: "number \<Rightarrow> number \<Rightarrow> number" where
  "js_div (Fin x) (Fin y) =
     (if y = 0 then (if x = 0 then NaN else if 0 < x then PInf else MInf) else fl (x / y))"
| "js_div NaN b = NaN"
| "js_div a NaN = NaN"
| "js_div (Fin x) b = Fin 0"
| "js_div a (Fin y) = (if 0 \<le> y then a else js_neg a)"
| "js_div PInf b = NaN"
| "js_div MInf b = NaN"

text \<open>\<open>Math.round\<close> rounds to the nearest integer, a half upwards; \<open>Math.ceil\<close>.\<close>

fun Math_round :: "number \<Rightarrow> number" where
  "Math_round (Fin x) = Fin (of_int \<lfloor>x + 1/2\<rfloor>)"
| "Math_round a = a"

fun Math_ceil :: "number \<Rightarrow> number" where
  "Math_ceil (Fin x) = Fin (of_int \<lceil>x\<rceil>)"
| "Math_ceil a = a"

text \<open>
  A latency sample is an integer number of milliseconds (\<open>Date.now() - startTime\<close>);
  \<open>sample\<close> is the number it is in the source.
\<close>

definition sample :: "int \<Rightarrow> number" where
  "sample x = fl (of_int x)"

section \<open>Errors\<close>

text \<open>
  The errors the library raises or rejects with. \<open>TypeError\<close> is the engine's error for
  a property access on \<open>undefined\<close>; \<open>Error\<close> carries its message;
  \<open>CircuitBrokenError\<close> is kept as the three arguments of its constructor call (breaker
  name, totals, threshold), from which the source renders the message text.
\<close>

record CumulativeStats =
  countTotal :: nat
  countSuccess :: nat
  countFailure :: nat
  countTimeout :: nat
  countShortCircuited :: nat
  countTotalDeriv :: nat
  countSuccessDeriv :: nat
  countFailureDeriv :: nat
  countTimeoutDeriv :: nat
  countShortCircuitedDeriv :: nat

text \<open>
  The five window counters that a \<open>Bucket\<close> and the aggregate built by
  \<open>_generateStats\<close> have in common.
\<close>

record Tallies =
  failed :: nat
  successful :: nat
  total :: nat
  shortCircuited :: nat
  timedOut :: nat

record Bucket = Tallies +
  requestTimes :: "int list"

text \<open>
  The object \<open>_generateStats\<close> builds. \<open>rawRequestTimes\<close> is its key
  \<open>requestTimes\<close> (\<open>None\<close> once the key is deleted); \<open>counts\<close> holds the keys that
  \<open>Object.assign(tempTotals, this._cumulative)\<close> copies in: \<open>None\<close> when the source
  object is \<open>undefined\<close> and nothing is copied. The percentile table is an
  association list keyed by the percentile level (the number), read with \<open>map_of\<close>.
\<close>

record TotalStats = Tallies +
  latencyMean :: number
  percentiles :: "(number \<times> number) list"
  rawRequestTimes :: "int list option"
  counts :: "CumulativeStats option"

datatype error =
    TypeError
  | TimeOutError string
  | Error string
  | CircuitBrokenError string TotalStats rat

section \<open>Bucket\<close>

text \<open>
  \<open>new Bucket(cumulativeStats)\<close>. The bucket keeps a reference to the cumulative
  counters object; every bucket of one \<open>Stats\<close> is given the same reference, so the
  object is held once, beside the buckets, as \<open>CumulativeStats option\<close>: \<open>None\<close> is a
  reference that is \<open>undefined\<close>. Each method takes the bucket and the referenced object
  and returns what was thrown (if anything) with both as the method left them: the
  statements before a throw have already taken effect.
\<close>

definition new_Bucket :: Bucket where
  "new_Bucket = \<lparr> failed = 0, successful = 0, total = 0, shortCircuited = 0, timedOut = 0,
                  requestTimes = [] \<rparr>"

definition Bucket_failure ::
  "int \<Rightarrow> Bucket \<Rightarrow> CumulativeStats option \<Rightarrow> error option \<times> Bucket \<times> CumulativeStats option" where
  "Bucket_failure runTime b cs =
     (let b1 = b\<lparr>total := total b + 1\<rparr> in
      case cs of
        None \<Rightarrow> (Some TypeError, b1, None)
      | Some c \<Rightarrow>
          (None,
           b1\<lparr>failed := failed b1 + 1, requestTimes := requestTimes b1 @ [runTime]\<rparr>,
           Some (c\<lparr>countTotal := countTotal c + 1, countTotalDeriv := countTotalDeriv c + 1,
                   countFailure := countFailure c + 1,
                   countFailureDeriv := countFailureDeriv c + 1\<rparr>)))"

definition Bucket_success ::
  "int \<Rightarrow> Bucket \<Rightarrow> CumulativeStats option \<Rightarrow> error option \<times> Bucket \<times> CumulativeStats option" where
  "Bucket_success runTime b cs =
     (let b1 = b\<lparr>total := total b + 1\<rparr> in
      case cs of
        None \<Rightarrow> (Some TypeError, b1, None)
      | Some c \<Rightarrow>
          (None,
           b1\<lparr>successful := successful b1 + 1, requestTimes := requestTimes b1 @ [runTime]\<rparr>,
           Some (c\<lparr>countTotal := countTotal c + 1, countTotalDeriv := countTotalDeriv c + 1,
                   countSuccess := countSuccess c + 1,
                   countSuccessDeriv := countSuccessDeriv c + 1\<rparr>)))"

definition Bucket_shortCircuit ::
  "Bucket \<Rightarrow> CumulativeStats option \<Rightarrow> error option \<times> Bucket \<times> CumulativeStats option" where
  "Bucket_shortCircuit b cs =
     (let b1 = b\<lparr>shortCircuited := shortCircuited b + 1\<rparr> in
      case cs of
        None \<Rightarrow> (Some TypeError, b1, None)
      | Some c \<Rightarrow>
          (None, b1,
           Some (c\<lparr>countShortCircuited := countShortCircuited c + 1,
                   countShortCircuitedDeriv := countShortCircuitedDeriv c + 1\<rparr>)))"

definition Bucket_timeout ::
  "int \<Rightarrow> Bucket \<Rightarrow> CumulativeStats option \<Rightarrow> error option \<times> Bucket \<times> CumulativeStats option" where
  "Bucket_timeout runTime b cs =
     (let b1 = b\<lparr>total := total b + 1\<rparr> in
      case cs of
        None \<Rightarrow> (Some TypeError, b1, None)
      | Some c \<Rightarrow>
          (None,
           b1\<lparr>timedOut := timedOut b1 + 1, requestTimes := requestTimes b1 @ [runTime]\<rparr>,
           Some (c\<lparr>countTotal := countTotal c + 1, countTotalDeriv := countTotalDeriv c + 1,
                   countTimeout := countTimeout c + 1,
                   countTimeoutDeriv := countTimeoutDeriv c + 1\<rparr>)))"

section \<open>Stats\<close>

text \<open>
  The options of \<open>Stats\<close> after the merge with its defaults. A percentile level is
  held as it is written (a decimal fraction); the number the code computes with is its
  \<open>fl\<close>. The source field is \<open>percentiles\<close>, renamed here because the aggregate has
  a key of that name too.
\<close>

record Opts =
  bucketSpan :: nat
  bucketNum :: nat
  percentileLevels :: "rat list"
  statInterval :: nat

definition defaultOptions :: Opts where
  "defaultOptions = \<lparr> bucketSpan = 1000, bucketNum = 60,
     percentileLevels = [0, 1/4, 1/2, 3/4, 9/10, 95/100, 99/100, 995/1000, 1],
     statInterval = 1200 \<rparr>"

text \<open>
  The state of a \<open>Stats\<close>. \<open>cumulative\<close> is the field \<open>_cumulative\<close>, the reference
  handed to every bucket. \<open>_activeBucket\<close> is always \<open>_buckets[_activePosition]\<close> with
  \<open>_activePosition = bucketNum - 1\<close> (both are set together), so it is read off the list.
\<close>

record Stats =
  opts :: Opts
  cumulative :: "CumulativeStats option"
  buckets :: "Bucket list"
  totals :: TotalStats
  spinningInterval :: bool
  snapshotInterval :: bool

text \<open>\<open>x || 0\<close> on a number that may be \<open>undefined\<close> (\<open>None\<close>): zero for \<open>undefined\<close>, \<open>NaN\<close> and 0.\<close>

definition orZero :: "number option \<Rightarrow> number" where
  "orZero v = (case v of None \<Rightarrow> Fin 0 | Some NaN \<Rightarrow> Fin 0 | Some x \<Rightarrow> x)"

text \<open>
  An array read \<open>array[i]\<close> with a number as the key: \<open>undefined\<close> unless the number is
  an integer inside the array.
\<close>

definition at_number :: "number list \<Rightarrow> number \<Rightarrow> number option" where
  "at_number array i =
     (case i of
        Fin r \<Rightarrow> if r = of_int \<lfloor>r\<rfloor> \<and> 0 \<le> r \<and> r < of_nat (length array)
                 then Some (array ! nat \<lfloor>r\<rfloor>) else None
      | _ \<Rightarrow> None)"

definition calculatePercentile :: "number \<Rightarrow> number list \<Rightarrow> number option" where
  "calculatePercentile percentile array =
     (if percentile = Fin 0 then at_number array (Fin 0)
      else let idx = Math_ceil (js_mul percentile (Fin (of_nat (length array))))
           in at_number array (js_sub idx (Fin 1)))"

text \<open>\<open>array.reduce((a, b) => a + b, 0)\<close>.\<close>

definition js_sum :: "number list \<Rightarrow> number" where
  "js_sum array = foldl (\<lambda>a b. js_add a b) (Fin 0) array"

text \<open>\<open>Math.round(sum / array.length)\<close>; on the empty array the quotient is \<open>NaN\<close>.\<close>

definition calculateMean :: "number list \<Rightarrow> number" where
  "calculateMean array =
     (let sum = js_sum array in Math_round (js_div sum (Fin (of_nat (length array)))))"

definition initialTotals :: TotalStats where
  "initialTotals = \<lparr> failed = 0, successful = 0, total = 0, shortCircuited = 0, timedOut = 0,
     latencyMean = Fin 0, percentiles = [], rawRequestTimes = Some [], counts = None \<rparr>"

definition reduceStep :: "bool \<Rightarrow> TotalStats \<Rightarrow> Bucket \<Rightarrow> TotalStats" where
  "reduceStep includeLatencyStats prev cur =
     (let prev1 = prev\<lparr>total := total prev + total cur, failed := failed prev + failed cur,
                       timedOut := timedOut prev + timedOut cur,
                       successful := successful prev + successful cur,
                       shortCircuited := shortCircuited prev + shortCircuited cur\<rparr> in
      if includeLatencyStats
      then prev1\<lparr>rawRequestTimes := map_option (\<lambda>ts. ts @ requestTimes cur) (rawRequestTimes prev1)\<rparr>
      else prev1)"

text \<open>
  \<open>_generateStats(buckets, includeLatencyStats)\<close>: returns the new totals and the
  \<open>Stats\<close> with \<open>_totals\<close> set to them. The samples are sorted as integers, which is
  the order of the numbers they are.
\<close>

definition generateStats :: "Bucket list \<Rightarrow> bool \<Rightarrow> Stats \<Rightarrow> TotalStats \<times> Stats" where
  "generateStats bs includeLatencyStats s =
     (let tempTotals = foldl (reduceStep includeLatencyStats) initialTotals bs;
          tempTotals1 =
            (if includeLatencyStats
             then let times = sort (case rawRequestTimes tempTotals of None \<Rightarrow> [] | Some ts \<Rightarrow> ts) in
                  tempTotals\<lparr>rawRequestTimes := Some times,
                    latencyMean := orZero (Some (calculateMean (map sample times))),
                    percentiles :=
                      fold (\<lambda>p m. AList.update (fl p)
                                    (orZero (calculatePercentile (fl p) (map sample times))) m)
                        (percentileLevels (opts s)) (percentiles tempTotals)\<rparr>
             else tempTotals\<lparr>latencyMean := latencyMean (totals s),
                    percentiles := percentiles (totals s)\<rparr>);
          tempTotals2 = tempTotals1\<lparr>rawRequestTimes := None, counts := cumulative s\<rparr>
      in (tempTotals2, s\<lparr>totals := tempTotals2\<rparr>))"

text \<open>
  The constructor. \<open>_cumulative\<close> is declared but never assigned, here or anywhere
  else, so it stays \<open>undefined\<close> and \<open>new Bucket(this._cumulative)\<close> hands every
  bucket that. \<open>_totals\<close> is not read by the first \<open>_generateStats(..., true)\<close>.
\<close>

definition Stats_new :: "Opts \<Rightarrow> Stats" where
  "Stats_new o_merged =
     (let s0 = \<lparr> opts = o_merged, cumulative = None,
                  buckets = replicate (bucketNum o_merged) new_Bucket,
                  totals = initialTotals, spinningInterval = True, snapshotInterval = False \<rparr>
      in snd (generateStats (buckets s0) True s0))"

definition shiftAndPush :: "'a list \<Rightarrow> 'a \<Rightarrow> 'a list" where
  "shiftAndPush arr item = tl (arr @ [item])"

text \<open>One tick of the rotation timer started by \<open>_startBucketSpinning\<close>.\<close>

definition spin :: "Stats \<Rightarrow> Stats" where
  "spin s = s\<lparr>buckets := shiftAndPush (buckets s) new_Bucket\<rparr>"

text \<open>\<open>_update()\<close>: the payload of the \<open>update\<close> event it emits, and the new state.\<close>

definition Stats_update :: "Stats \<Rightarrow> TotalStats \<times> Stats" where
  "Stats_update s = generateStats (buckets s) False s"

definition Stats_reset :: "Stats \<Rightarrow> TotalStats \<times> Stats" where
  "Stats_reset s =
     Stats_update
       (s\<lparr>buckets := fold (\<lambda>i bs. shiftAndPush bs new_Bucket) [0..<bucketNum (opts s)] (buckets s)\<rparr>)"

definition resetDerivs :: "Stats \<Rightarrow> error option \<times> Stats" where
  "resetDerivs s =
     (case cumulative s of
        None \<Rightarrow> (Some TypeError, s)
      | Some c \<Rightarrow>
          (None, s\<lparr>cumulative := Some (c\<lparr>countTotalDeriv := 0, countSuccessDeriv := 0,
                      countFailureDeriv := 0, countTimeoutDeriv := 0,
                      countShortCircuitedDeriv := 0\<rparr>)\<rparr>))"

text \<open>
  \<open>_snapshot()\<close>, the body of the snapshot timer: the payload of the \<open>snapshot\<close> event
  (emitted first), what \<open>_resetDerivs\<close> threw, and the new state.
\<close>

definition Stats_snapshot :: "Stats \<Rightarrow> TotalStats \<times> error option \<times> Stats" where
  "Stats_snapshot s =
     (let (t, s1) = generateStats (buckets s) True s;
          (e, s2) = resetDerivs s1
      in (t, e, s2))"

definition activePosition :: "Stats \<Rightarrow> int" where
  "activePosition s = int (bucketNum (opts s)) - 1"

text \<open>\<open>_activeBucket\<close>: \<open>undefined\<close> when the position is outside the array.\<close>

definition activeBucket :: "Stats \<Rightarrow> Bucket option" where
  "activeBucket s =
     (if 0 \<le> activePosition s \<and> activePosition s < int (length (buckets s))
      then Some (buckets s ! nat (activePosition s)) else None)"

text \<open>
  The common shape of \<open>failure\<close>, \<open>success\<close>, \<open>shortCircuit\<close> and \<open>timeout\<close>: call
  the method on the active bucket, then \<open>_update()\<close>. A throw from the bucket method
  leaves before \<open>_update()\<close>, so no \<open>update\<close> event is emitted then. The result is
  what was thrown, the payload of the \<open>update\<close> event if one was emitted, and the state.
\<close>

definition onActive ::
  "(Bucket \<Rightarrow> CumulativeStats option \<Rightarrow> error option \<times> Bucket \<times> CumulativeStats option) \<Rightarrow>
   Stats \<Rightarrow> error option \<times> TotalStats option \<times> Stats" where
  "onActive method s =
     (case activeBucket s of
        None \<Rightarrow> (Some TypeError, None, s)
      | Some b \<Rightarrow>
          (let (e, b', c') = method b (cumulative s);
               s1 = s\<lparr>buckets := (buckets s)[nat (activePosition s) := b'], cumulative := c'\<rparr>
           in case e of
                Some err \<Rightarrow> (Some err, None, s1)
              | None \<Rightarrow> (let (t, s2) = Stats_update s1 in (None, Some t, s2))))"

definition Stats_failure :: "int \<Rightarrow> Stats \<Rightarrow> error option \<times> TotalStats option \<times> Stats" where
  "Stats_failure runTime s = onActive (Bucket_failure runTime) s"

definition Stats_success :: "int \<Rightarrow> Stats \<Rightarrow> error option \<times> TotalStats option \<times> Stats" where
  "Stats_success runTime s = onActive (Bucket_success runTime) s"

definition Stats_shortCircuit :: "Stats \<Rightarrow> error option \<times> TotalStats option \<times> Stats" where
  "Stats_shortCircuit s = onActive Bucket_shortCircuit s"

definition Stats_timeout :: "int \<Rightarrow> Stats \<Rightarrow> error option \<times> TotalStats option \<times> Stats" where
  "Stats_timeout runTime s = onActive (Bucket_timeout runTime) s"

definition startSnapshots :: "Stats \<Rightarrow> Stats" where
  "startSnapshots s = s\<lparr>snapshotInterval := True\<rparr>"

section \<open>Brakes\<close>

type_synonym val = int

datatype result = Resolved val | Rejected error

text \<open>
  The options of a \<open>Brakes\<close> after the merge with \<open>defaultOptions\<close>; \<open>statsOptions\<close>
  are the four that \<open>Stats\<close> reads from the same object. \<open>healthCheck\<close> says whether
  a health check function is given; a fallback is given as the result it settles with.
\<close>

record ConfigurationOptions =
  name :: string
  group :: string
  circuitDuration :: nat
  waitThreshold :: int
  threshold :: rat
  timeout :: nat
  healthCheckInterval :: nat
  modifyError :: bool
  registerGlobal :: bool
  healthCheck :: bool
  fallback :: "(val list \<Rightarrow> result) option"
  isFailure :: "(error \<Rightarrow> bool) option"
  statsOptions :: Opts

definition defaultBrakesOptions :: ConfigurationOptions where
  "defaultBrakesOptions = \<lparr> name = ''defaultBrake'', group = ''defaultBrakeGroup'',
     circuitDuration = 30000, waitThreshold = 100, threshold = 1/2, timeout = 15000,
     healthCheckInterval = 5000, modifyError = True, registerGlobal = True,
     healthCheck = False, fallback = None, isFailure = None, statsOptions = defaultOptions \<rparr>"

text \<open>
  The object \<open>_snapshotHandler\<close> emits: name, group, time, open, circuitDuration,
  threshold, waitThreshold, stats.
\<close>

datatype envelope = Envelope string string nat bool nat rat int TotalStats

datatype event =
    Exec
  | Success int
  | Timeout int error nat
  | Failure int error nat
  | CircuitOpen
  | CircuitClosed
  | HealthCheckFailed error
  | Snapshot envelope

text \<open>A \<open>Circuit\<close>: its own fallback and the \<open>isFailure\<close> of its options.\<close>

record Circuit =
  circuitFallback :: "(val list \<Rightarrow> result) option"
  circuitIsFailure :: "error \<Rightarrow> bool"

text \<open>
  The state of a \<open>Brakes\<close>. \<open>emitted\<close> is the sequence of events emitted on it so
  far. \<open>attached\<close> says whether the listeners of \<open>_attachListeners\<close> for \<open>success\<close>,
  \<open>timeout\<close> and \<open>failure\<close> are still on the emitter; \<open>snapshotListeners\<close> are the
  function objects listening to \<open>snapshot\<close>, each known by the number it was created
  under. \<open>cooldownTimers\<close> counts the pending timers of \<open>_resetCircuitTimeout\<close>.
\<close>

record Brakes =
  brakeOpts :: ConfigurationOptions
  circuitOpen :: bool
  circuitGeneration :: nat
  stats :: Stats
  brakeFallback :: "(val list \<Rightarrow> result) option"
  healthCheckFn :: bool
  healthInterval :: bool
  cooldownTimers :: nat
  masterCircuit :: "Circuit option"
  attached :: bool
  snapshotListeners :: "nat list"
  emitted :: "event list"

definition NO_FUNCTION :: string where
  "NO_FUNCTION = ''This instance of brakes has no master circuit. You must use a slave circuit.''"

definition TIMEOUT :: string where
  "TIMEOUT = ''Request Timed out''"

definition emit :: "event \<Rightarrow> Brakes \<Rightarrow> Brakes" where
  "emit ev b = b\<lparr>emitted := emitted b @ [ev]\<rparr>"

definition Brakes_close :: "Brakes \<Rightarrow> Brakes" where
  "Brakes_close b = emit CircuitClosed (b\<lparr>circuitOpen := False\<rparr>)"

definition setHealthInterval :: "Brakes \<Rightarrow> Brakes" where
  "setHealthInterval b = (if healthInterval b then b else b\<lparr>healthInterval := True\<rparr>)"

definition resetCircuitTimeout :: "Brakes \<Rightarrow> Brakes" where
  "resetCircuitTimeout b = b\<lparr>cooldownTimers := cooldownTimers b + 1\<rparr>"

definition Brakes_open :: "Brakes \<Rightarrow> Brakes" where
  "Brakes_open b =
     (if circuitOpen b then b
      else let b1 = emit CircuitOpen b;
               b2 = b1\<lparr>circuitOpen := True\<rparr>;
               b3 = b2\<lparr>circuitGeneration := circuitGeneration b2 + 1\<rparr>
           in if healthCheckFn b3 then setHealthInterval b3 else resetCircuitTimeout b3)"

text \<open>
  \<open>_checkStats(stats)\<close>, the listener of the \<open>update\<close> event of \<open>_stats\<close>. The guard
  \<open>!stats.total\<close> keeps the division away from a zero total.
\<close>

definition checkStats :: "TotalStats \<Rightarrow> Brakes \<Rightarrow> Brakes" where
  "checkStats d b =
     (let pastThreshold = int (total d) > waitThreshold (brakeOpts b) in
      if \<not> pastThreshold \<or> total d = 0 \<or> circuitOpen b then b
      else if (of_nat (successful d) :: rat) / of_nat (total d) < threshold (brakeOpts b)
           then Brakes_open b
           else b)"

text \<open>
  A call of a recording method of \<open>_stats\<close> from the breaker: the state of \<open>_stats\<close>
  is replaced, and an emitted \<open>update\<close> reaches \<open>_checkStats\<close> before the call returns.
\<close>

definition recordStats ::
  "(Stats \<Rightarrow> error option \<times> TotalStats option \<times> Stats) \<Rightarrow> Brakes \<Rightarrow> error option \<times> Brakes" where
  "recordStats method b =
     (let (e, upd, s') = method (stats b);
          b1 = b\<lparr>stats := s'\<rparr>
      in (e, case upd of None \<Rightarrow> b1 | Some d \<Rightarrow> checkStats d b1))"

definition successHandler :: "int \<Rightarrow> Brakes \<Rightarrow> error option \<times> Brakes" where
  "successHandler runTime b = recordStats (Stats_success runTime) b"

definition timeoutHandler :: "int \<Rightarrow> nat \<Rightarrow> Brakes \<Rightarrow> error option \<times> Brakes" where
  "timeoutHandler runTime execGeneration b =
     (if execGeneration = circuitGeneration b then recordStats (Stats_timeout runTime) b
      else (None, b))"

definition failureHandler :: "int \<Rightarrow> nat \<Rightarrow> Brakes \<Rightarrow> error option \<times> Brakes" where
  "failureHandler runTime execGeneration b =
     (if execGeneration = circuitGeneration b then recordStats (Stats_failure runTime) b
      else (None, b))"

text \<open>
  Emitting an outcome event on the breaker: the event is emitted, and while the
  listeners of \<open>_attachListeners\<close> are attached the matching handler runs. What the
  handler throws leaves \<open>emit\<close>.
\<close>

fun emitOutcome :: "event \<Rightarrow> Brakes \<Rightarrow> error option \<times> Brakes" where
  "emitOutcome (Success d) b =
     (if attached b then successHandler d (emit (Success d) b) else (None, emit (Success d) b))"
| "emitOutcome (Timeout d err g) b =
     (if attached b then timeoutHandler d g (emit (Timeout d err g) b)
      else (None, emit (Timeout d err g) b))"
| "emitOutcome (Failure d err g) b =
     (if attached b then failureHandler d g (emit (Failure d err g) b)
      else (None, emit (Failure d err g) b))"
| "emitOutcome ev b = (None, emit ev b)"

text \<open>The callback of the timer set by \<open>_resetCircuitTimeout\<close>.\<close>

definition circuitTimeoutFired :: "Brakes \<Rightarrow> Brakes" where
  "circuitTimeoutFired b =
     (let (d, s') = Stats_reset (stats b);
          b1 = checkStats d (b\<lparr>stats := s', cooldownTimers := cooldownTimers b - 1\<rparr>)
      in Brakes_close b1)"

section \<open>Circuit\<close>

text \<open>
  What \<open>exec\<close> does before it returns: it throws, returns a settled promise, or
  returns a promise that waits for the service call, whose \<open>execGeneration\<close> is kept.
\<close>

datatype exec_return = Throws error | Promise result | Pending nat

definition Circuit_exec :: "val list \<Rightarrow> Circuit \<Rightarrow> Brakes \<Rightarrow> exec_return \<times> Brakes" where
  "Circuit_exec args c b =
     (let b1 = emit Exec b;
          execGeneration = circuitGeneration b1
      in if circuitOpen b1
         then (let (e, b2) = recordStats Stats_shortCircuit b1 in
               case e of
                 Some err \<Rightarrow> (Throws err, b2)
               | None \<Rightarrow>
                   (case circuitFallback c of
                      Some f \<Rightarrow> (Promise (f args), b2)
                    | None \<Rightarrow>
                        (case brakeFallback b2 of
                           Some f \<Rightarrow> (Promise (f args), b2)
                         | None \<Rightarrow>
                             (Promise (Rejected (CircuitBrokenError (name (brakeOpts b2))
                                (totals (stats b2)) (threshold (brakeOpts b2)))), b2))))
         else (Pending execGeneration, b1))"

text \<open>How the promise of \<open>_execPromise\<close> settles, with the elapsed time.\<close>

datatype outcome = Fulfils val int | Rejects error int

text \<open>
  \<open>err.message = `[Breaker: ${name}] ${err.message}`\<close> when the message and the name
  are not empty. Only the messages of \<open>Error\<close> and \<open>TimeOutError\<close> are kept in \<open>error\<close>.
\<close>

definition prefixMessage :: "string \<Rightarrow> error \<Rightarrow> error" where
  "prefixMessage n err =
     (case err of
        Error m \<Rightarrow> if m \<noteq> [] \<and> n \<noteq> [] then Error (''[Breaker: '' @ n @ ''] '' @ m) else err
      | TimeOutError m \<Rightarrow>
          if m \<noteq> [] \<and> n \<noteq> [] then TimeOutError (''[Breaker: '' @ n @ ''] '' @ m) else err
      | _ \<Rightarrow> err)"

definition isTimeOutError :: "error \<Rightarrow> bool" where
  "isTimeOutError err = (case err of TimeOutError m \<Rightarrow> True | _ \<Rightarrow> False)"

text \<open>The \<open>.catch\<close> handler of \<open>exec\<close>.\<close>

definition execCatch :: "error \<Rightarrow> int \<Rightarrow> nat \<Rightarrow> val list \<Rightarrow> Circuit \<Rightarrow> Brakes \<Rightarrow> result \<times> Brakes" where
  "execCatch err endTime execGeneration args c b =
     (let (e, b1) =
            (if isTimeOutError err then emitOutcome (Timeout endTime err execGeneration) b
             else if circuitIsFailure c err then emitOutcome (Failure endTime err execGeneration) b
             else (None, b))
      in case e of
           Some thrown \<Rightarrow> (Rejected thrown, b1)
         | None \<Rightarrow>
             (case circuitFallback c of
                Some f \<Rightarrow> (f args, b1)
              | None \<Rightarrow>
                  (case brakeFallback b1 of
                     Some f \<Rightarrow> (f args, b1)
                   | None \<Rightarrow>
                       (Rejected (if modifyError (brakeOpts b1)
                                  then prefixMessage (name (brakeOpts b1)) err else err), b1))))"

text \<open>
  The rest of \<open>exec\<close>, run when the promise of \<open>_execPromise\<close> settles: \<open>.tap\<close> emits
  \<open>success\<close>; a rejection, or a throw out of the \<open>.tap\<close>, enters the \<open>.catch\<close> handler.
\<close>

definition Circuit_settle ::
  "outcome \<Rightarrow> nat \<Rightarrow> val list \<Rightarrow> Circuit \<Rightarrow> Brakes \<Rightarrow> result \<times> Brakes" where
  "Circuit_settle out execGeneration args c b =
     (case out of
        Fulfils v elapsed \<Rightarrow>
          (let (e, b1) = emitOutcome (Success elapsed) b in
           case e of
             None \<Rightarrow> (Resolved v, b1)
           | Some thrown \<Rightarrow> execCatch thrown elapsed execGeneration args c b1)
      | Rejects err elapsed \<Rightarrow> execCatch err elapsed execGeneration args c b)"

definition Brakes_exec :: "val list \<Rightarrow> Brakes \<Rightarrow> exec_return \<times> Brakes" where
  "Brakes_exec args b =
     (case masterCircuit b of
        Some c \<Rightarrow> Circuit_exec args c b
      | None \<Rightarrow> (Promise (Rejected (Error NO_FUNCTION)), b))"

section \<open>GlobalStats\<close>

text \<open>
  The registry. A \<open>Brakes\<close> in \<open>_brakesInstances\<close> is known by its reference, a
  number. \<open>rawStream\<close> is what has been pushed onto the raw stream (the object that
  \<open>JSON.stringify\<close> renders); \<open>rawPaused\<close> is its \<open>isPaused()\<close>. Every evaluation of
  \<open>this._globalListener.bind(this)\<close> makes a new function object; \<open>bound\<close> counts
  them, and the next one gets that number.
\<close>

record GlobalStats =
  brakesInstances :: "nat list"
  rawStream :: "envelope list"
  rawPaused :: bool
  bound :: nat

definition GlobalStats_new :: GlobalStats where
  "GlobalStats_new = \<lparr> brakesInstances = [], rawStream = [], rawPaused = False, bound = 0 \<rparr>"

definition instanceCount :: "GlobalStats \<Rightarrow> nat" where
  "instanceCount g = length (brakesInstances g)"

text \<open>
  \<open>emitter.removeListener(event, fn)\<close> removes at most one listener, the most recently
  added one that is the function object \<open>fn\<close>.
\<close>

definition removeListener :: "nat \<Rightarrow> nat list \<Rightarrow> nat list" where
  "removeListener fn ls = rev (remove1 fn (rev ls))"

definition register :: "nat \<Rightarrow> Brakes \<Rightarrow> GlobalStats \<Rightarrow> Brakes \<times> GlobalStats" where
  "register ref inst g =
     (let g1 = g\<lparr>brakesInstances := brakesInstances g @ [ref]\<rparr>;
          fn = bound g1
      in (inst\<lparr>snapshotListeners := snapshotListeners inst @ [fn]\<rparr>, g1\<lparr>bound := bound g1 + 1\<rparr>))"

definition deregister :: "nat \<Rightarrow> Brakes \<Rightarrow> GlobalStats \<Rightarrow> Brakes \<times> GlobalStats" where
  "deregister ref inst g =
     (let g1 = g\<lparr>brakesInstances := remove1 ref (brakesInstances g)\<rparr>;
          fn = bound g1
      in (inst\<lparr>snapshotListeners := removeListener fn (snapshotListeners inst)\<rparr>,
          g1\<lparr>bound := bound g1 + 1\<rparr>))"

text \<open>
  \<open>_globalListener(stats)\<close>. The raw stream is piped into a stream with
  \<open>highWaterMark: 0\<close>: the write of a pushed chunk finds the buffer full, so the pipe
  pauses the raw stream during the push; the \<open>drain\<close> event of a later tick resumes it.
\<close>

definition globalListener :: "envelope \<Rightarrow> GlobalStats \<Rightarrow> GlobalStats" where
  "globalListener env g =
     (if \<not> rawPaused g then g\<lparr>rawStream := rawStream g @ [env], rawPaused := True\<rparr> else g)"

definition drain :: "GlobalStats \<Rightarrow> GlobalStats" where
  "drain g = g\<lparr>rawPaused := False\<rparr>"

text \<open>
  \<open>_snapshotHandler(stats)\<close> at time \<open>now\<close>: the event is emitted on the breaker and
  every function object listening to \<open>snapshot\<close> is called with it; each of them is a
  bound \<open>_globalListener\<close> of the registry.
\<close>

definition snapshotHandler :: "TotalStats \<Rightarrow> nat \<Rightarrow> Brakes \<times> GlobalStats \<Rightarrow> Brakes \<times> GlobalStats" where
  "snapshotHandler d now w =
     (let b = fst w; g = snd w;
          env = Envelope (name (brakeOpts b)) (group (brakeOpts b)) now (circuitOpen b)
                  (circuitDuration (brakeOpts b)) (threshold (brakeOpts b))
                  (waitThreshold (brakeOpts b)) d
      in (emit (Snapshot env) b, fold (\<lambda>fn. globalListener env) (snapshotListeners b) g))"

text \<open>
  One tick of the snapshot timer of the breaker's \<open>_stats\<close>: \<open>_snapshot()\<close> emits
  \<open>snapshot\<close>, which \<open>_snapshotHandler\<close> listens to, and then resets the derivatives.
  The first component is what the timer callback throws.
\<close>

definition snapshotTick :: "nat \<Rightarrow> Brakes \<times> GlobalStats \<Rightarrow> error option \<times> Brakes \<times> GlobalStats" where
  "snapshotTick now w =
     (let (d, e, s') = Stats_snapshot (stats (fst w));
          w1 = snapshotHandler d now ((fst w)\<lparr>stats := s'\<rparr>, snd w)
      in (e, w1))"

text \<open>
  \<open>destroy()\<close>: deregisters, then removes every listener of every event from the
  breaker's own emitter.
\<close>

definition destroy :: "nat \<Rightarrow> Brakes \<times> GlobalStats \<Rightarrow> Brakes \<times> GlobalStats" where
  "destroy ref w =
     (let (b1, g1) = deregister ref (fst w) (snd w)
      in (b1\<lparr>attached := False, snapshotListeners := []\<rparr>, g1))"

text \<open>
  \<open>new Circuit(brakes, main, options)\<close> as the breaker's constructor calls it: no
  fallback of its own, \<open>isFailure\<close> from the options or the default \<open>() => true\<close>.
\<close>

definition Circuit_new :: "ConfigurationOptions \<Rightarrow> Circuit" where
  "Circuit_new options =
     \<lparr> circuitFallback = None,
       circuitIsFailure = (case isFailure options of None \<Rightarrow> (\<lambda>err. True) | Some f \<Rightarrow> f) \<rparr>"

text \<open>
  \<open>brakes.fallback(func)\<close>: with a master circuit the function becomes that circuit's
  fallback as well.
\<close>

definition Brakes_fallback :: "(val list \<Rightarrow> result) \<Rightarrow> Brakes \<Rightarrow> Brakes" where
  "Brakes_fallback f b =
     (case masterCircuit b of
        Some c \<Rightarrow> b\<lparr>masterCircuit := Some (c\<lparr>circuitFallback := Some f\<rparr>), brakeFallback := Some f\<rparr>
      | None \<Rightarrow> b\<lparr>brakeFallback := Some f\<rparr>)"

text \<open>
  The constructor of \<open>Brakes\<close>: \<open>func\<close> says whether a primary function was passed,
  \<open>options\<close> are the merged options, \<open>ref\<close> is the reference of the new object.
\<close>

definition Brakes_new :: "bool \<Rightarrow> ConfigurationOptions \<Rightarrow> nat \<Rightarrow> GlobalStats \<Rightarrow> Brakes \<times> GlobalStats" where
  "Brakes_new func options ref g =
     (let b0 = \<lparr> brakeOpts = options, circuitOpen = False, circuitGeneration = 1,
                  stats = startSnapshots (Stats_new (statsOptions options)),
                  brakeFallback = None, healthCheckFn = False, healthInterval = False,
                  cooldownTimers = 0, masterCircuit = None, attached = True,
                  snapshotListeners = [], emitted = [] \<rparr>;
          (b1, g1) = (if registerGlobal options then register ref b0 g else (b0, g));
          b2 = (if healthCheck options then b1\<lparr>healthCheckFn := True\<rparr> else b1);
          b3 = (if func then b2\<lparr>masterCircuit := Some (Circuit_new options)\<rparr> else b2);
          b4 = (case fallback options of None \<Rightarrow> b3 | Some f \<Rightarrow> Brakes_fallback f b3)
      in (b4, g1))"

section \<open>Example states\<close>

text \<open>
  A window of one bucket holding the latency samples 10, 20, 30, 40, 50, with the
  percentile levels 0, 0.5 and 1.
\<close>

definition percentileWindow :: Stats where
  "percentileWindow =
     \<lparr> opts = \<lparr> bucketSpan = 1000, bucketNum = 1, percentileLevels = [0, 1/2, 1],
                statInterval = 1200 \<rparr>,
       cumulative = None,
       buckets = [\<lparr> failed = 0, successful = 5, total = 5, shortCircuited = 0, timedOut = 0,
                    requestTimes = [10, 20, 30, 40, 50] \<rparr>],
       totals = initialTotals, spinningInterval = True, snapshotInterval = True \<rparr>"

text \<open>Outcome events emitted on a breaker one after the other, with what each \<open>emit\<close> threw.\<close>

fun emitAll :: "event list \<Rightarrow> Brakes \<Rightarrow> error option list \<times> Brakes" where
  "emitAll [] b = ([], b)"
| "emitAll (ev # evs) b =
     (let (e, b1) = emitOutcome ev b; (es, b2) = emitAll evs b1 in (e # es, b2))"

text \<open>\<open>n\<close> calls of \<open>brakes.exec(...args)\<close> one after the other, with what each returned.\<close>

fun execTimes :: "nat \<Rightarrow> val list \<Rightarrow> Brakes \<Rightarrow> exec_return list \<times> Brakes" where
  "execTimes 0 args b = ([], b)"
| "execTimes (Suc n) args b =
     (let (r, b1) = Brakes_exec args b; (rs, b2) = execTimes n args b1 in (r # rs, b2))"

text \<open>\<open>new Brakes(fn)\<close> on a fresh registry.\<close>

definition defaultBrakes :: Brakes where
  "defaultBrakes = fst (Brakes_new True defaultBrakesOptions 0 GlobalStats_new)"

text \<open>
  \<open>new Brakes(fn, {waitThreshold: 4, threshold: 0.5})\<close>, and one success followed by
  four failures of calls started in generation 1.
\<close>

definition scenarioBrakes :: Brakes where
  "scenarioBrakes =
     fst (Brakes_new True (defaultBrakesOptions\<lparr>waitThreshold := 4, threshold := 1/2\<rparr>) 0
            GlobalStats_new)"

definition scenarioEvents :: "event list" where
  "scenarioEvents = [Success 5, Failure 5 (Error ''down'') 1, Failure 5 (Error ''down'') 1,
                     Failure 5 (Error ''down'') 1, Failure 5 (Error ''down'') 1]"


text \<open>The invariant of a bucket that the outcome counters and the latency samples keep.\<close>

definition bucketInvariant :: "Bucket \<Rightarrow> bool" where
  "bucketInvariant k \<longleftrightarrow>
     total k = successful k + failed k + timedOut k \<and>
     length (requestTimes k) = successful k + failed k + timedOut k"

text \<open>\<open>new Brakes(fn)\<close> after a call of its \<open>_open()\<close>.\<close>

definition openedBrakes :: Brakes where
  "openedBrakes = Brakes_open defaultBrakes"

text \<open>
  \<open>new Brakes(fn)\<close> with the registry it registered itself in, and the two after
  \<open>globalStats.deregister(brakes)\<close>.
\<close>

definition registeredWorld :: "Brakes \<times> GlobalStats" where
  "registeredWorld = Brakes_new True defaultBrakesOptions 0 GlobalStats_new"

definition deregisteredWorld :: "Brakes \<times> GlobalStats" where
  "deregisteredWorld = deregister 0 (fst registeredWorld) (snd registeredWorld)"

section \<open>Binary64 arithmetic\<close>

declare floorlog2.simps [simp del]

lemma floorlog2_bounds:
  "1 \<le> a \<Longrightarrow> 0 \<le> floorlog2 a \<and> 2 ^ nat (floorlog2 a) \<le> a \<and> a < 2 * 2 ^ nat (floorlog2 a)"
proof (induction a rule: floorlog2.induct)
  case (1 a)
  show ?case
  proof (cases "a \<le> 1")
    case True
    with "1.prems" have "a = 1" by simp
    then show ?thesis by (simp add: floorlog2.simps)
  next
    case False
    then have h: "1 \<le> a div 2" by simp
    from "1.IH"[OF False h]
    have ih: "0 \<le> floorlog2 (a div 2)" "2 ^ nat (floorlog2 (a div 2)) \<le> a div 2"
      "a div 2 < 2 * 2 ^ nat (floorlog2 (a div 2))" by simp_all
    have e: "floorlog2 a = floorlog2 (a div 2) + 1" using False by (simp add: floorlog2.simps)
    have n: "nat (floorlog2 (a div 2) + 1) = Suc (nat (floorlog2 (a div 2)))" using ih(1) by simp
    show ?thesis using ih unfolding e n by simp linarith
  qed
qed

lemma expo_bounds:
  assumes "0 < x"
  shows "2 powi (expo x) \<le> x" and "x < 2 powi (expo x + 1)"
proof -
  show "2 powi (expo x) \<le> x" "x < 2 powi (expo x + 1)"
  proof (atomize (full), cases "1 \<le> x")
    case True
    then have f: "1 \<le> \<lfloor>x\<rfloor>" by simp
    define k where "k = floorlog2 \<lfloor>x\<rfloor>"
    from floorlog2_bounds[OF f]
    have k0: "0 \<le> k" and lb: "(2::int) ^ nat k \<le> \<lfloor>x\<rfloor>" and ub: "\<lfloor>x\<rfloor> < 2 * 2 ^ nat k"
      by (simp_all add: k_def)
    have "(2::rat) ^ nat k = of_int (2 ^ nat k)" by simp
    also have "\<dots> \<le> of_int \<lfloor>x\<rfloor>" using lb by (simp only: of_int_le_iff)
    also have "\<dots> \<le> x" by simp
    finally have 1: "(2::rat) ^ nat k \<le> x" .
    have "\<lfloor>x\<rfloor> + 1 \<le> 2 * 2 ^ nat k" using ub by simp
    then have "(of_int (\<lfloor>x\<rfloor> + 1) :: rat) \<le> of_int (2 * 2 ^ nat k)" by (simp only: of_int_le_iff)
    moreover have "x < of_int (\<lfloor>x\<rfloor> + 1)" by linarith
    ultimately have 2: "x < 2 * 2 ^ nat k" by simp
    have e: "expo x = k" using True by (simp add: expo_def k_def)
    have p1: "(2::rat) powi k = 2 ^ nat k" using k0 by (simp add: power_int_nonneg_exp)
    have p2: "(2::rat) powi (k + 1) = 2 * 2 ^ nat k"
      using k0 by (simp add: power_int_nonneg_exp nat_add_distrib)
    show "2 powi (expo x) \<le> x \<and> x < 2 powi (expo x + 1)" using 1 2 by (simp add: e p1 p2)
  next
    case False
    define m where "m = \<lceil>1 / x\<rceil> - 1"
    define k where "k = floorlog2 m"
    have "1 < 1 / x" using False assms by simp
    then have m1: "1 \<le> m" unfolding m_def by (simp add: less_ceiling_iff)
    from floorlog2_bounds[OF m1] have k0: "0 \<le> k" and lb: "2 ^ nat k \<le> m" and ub: "m < 2 * 2 ^ nat k"
      by (simp_all add: k_def)
    have "\<lceil>1 / x\<rceil> \<le> 2 * 2 ^ nat k" using ub by (simp add: m_def)
    then have "1 / x \<le> of_int (2 * 2 ^ nat k)" by (simp only: ceiling_le_iff)
    then have "1 / x \<le> 2 * 2 ^ nat k" by simp
    then have "1 \<le> x * (2 * 2 ^ nat k)" using assms by (simp add: field_simps)
    then have le: "1 / (2 * 2 ^ nat k) \<le> x" by (simp add: field_simps)
    have "(2::int) ^ nat k < \<lceil>1 / x\<rceil>" using lb by (simp add: m_def)
    then have "of_int (2 ^ nat k) < 1 / x" by (simp only: less_ceiling_iff)
    then have "2 ^ nat k < 1 / x" by simp
    then have "x * 2 ^ nat k < 1" using assms by (simp add: field_simps)
    then have lt: "x < 1 / 2 ^ nat k" by (simp add: field_simps)
    have e: "expo x = - (k + 1)" using False by (simp add: expo_def m_def k_def)
    have "(2::rat) powi (- (k + 1)) = 1 / 2 powi (k + 1)" by (rule power_int_minus_divide)
    moreover have "(2::rat) powi (k + 1) = 2 * 2 ^ nat k"
      using k0 by (simp add: power_int_nonneg_exp nat_add_distrib)
    ultimately have p1: "(2::rat) powi (- (k + 1)) = 1 / (2 * 2 ^ nat k)" by simp
    have "(2::rat) powi (- k) = 1 / 2 powi k" by (rule power_int_minus_divide)
    then have p2: "(2::rat) powi (- k) = 1 / 2 ^ nat k" using k0 by (simp add: power_int_nonneg_exp)
    have s: "- (k + 1) + 1 = - k" by simp
    show "2 powi (expo x) \<le> x \<and> x < 2 powi (expo x + 1)"
      unfolding e s p1 p2 using le lt by simp
  qed
qed

lemmas expo_le = expo_bounds(1)

lemma expo_less:
  assumes "0 < x" "x < 2 powi e"
  shows "expo x < e"
proof (rule ccontr)
  assume "\<not> expo x < e"
  then have "(2::rat) powi e \<le> 2 powi (expo x)" by (intro power_int_increasing) simp_all
  also have "\<dots> \<le> x" by (rule expo_le[OF assms(1)])
  finally show False using assms(2) by simp
qed

lemma expo_ge:
  assumes "0 < x" "2 powi e \<le> x"
  shows "e \<le> expo x"
proof (rule ccontr)
  assume "\<not> e \<le> expo x"
  then have "expo x + 1 \<le> e" by simp
  then have "(2::rat) powi (expo x + 1) \<le> 2 powi e" by (intro power_int_increasing) simp_all
  with expo_bounds(2)[OF assms(1)] assms(2) show False by simp
qed

lemma roundHalfEven_bounds: "\<lfloor>m\<rfloor> \<le> roundHalfEven m \<and> roundHalfEven m \<le> \<lceil>m\<rceil>"
proof -
  have "\<lfloor>m\<rfloor> + 1 \<le> \<lceil>m\<rceil>" if "m \<noteq> of_int \<lfloor>m\<rfloor>"
    using that by (metis ceiling_altdef order_refl)
  moreover have "m \<noteq> of_int \<lfloor>m\<rfloor>" if "1/2 \<le> m - of_int \<lfloor>m\<rfloor>" using that by auto
  ultimately show ?thesis
    by (auto simp: roundHalfEven_def Let_def not_less)
qed

lemma roundHalfEven_of_int [simp]: "roundHalfEven (of_int k) = k"
  by (simp add: roundHalfEven_def)

lemma roundHalfEven_le_half: "of_int (roundHalfEven m) \<le> m + 1/2"
proof -
  have a: "of_int \<lfloor>m\<rfloor> \<le> m" by simp
  have "of_int (roundHalfEven m) \<le> m + 1/2" if "m - of_int \<lfloor>m\<rfloor> < 1/2"
  proof -
    have "roundHalfEven m = \<lfloor>m\<rfloor>" using that by (simp add: roundHalfEven_def Let_def)
    with a show ?thesis by linarith
  qed
  moreover have "of_int (roundHalfEven m) \<le> m + 1/2" if "\<not> m - of_int \<lfloor>m\<rfloor> < 1/2"
  proof -
    have "of_int (roundHalfEven m) \<le> (of_int \<lfloor>m\<rfloor> :: rat) + 1"
      by (simp add: roundHalfEven_def Let_def)
    with that show ?thesis by linarith
  qed
  ultimately show ?thesis by blast
qed

text \<open>The error of a rounding: at most half the distance of neighbouring values.\<close>

lemma roundHalfEven_error: "\<bar>of_int (roundHalfEven m) - m\<bar> \<le> 1/2"
proof -
  have a: "of_int \<lfloor>m\<rfloor> \<le> m" "m < of_int \<lfloor>m\<rfloor> + 1" by linarith+
  have "roundHalfEven m = \<lfloor>m\<rfloor> \<or> roundHalfEven m = \<lfloor>m\<rfloor> + 1"
    by (simp add: roundHalfEven_def Let_def)
  then show ?thesis
  proof
    assume r: "roundHalfEven m = \<lfloor>m\<rfloor>"
    then have "m - of_int \<lfloor>m\<rfloor> \<le> 1/2"
      by (auto simp: roundHalfEven_def Let_def split: if_splits)
    with a r show ?thesis by simp
  next
    assume r: "roundHalfEven m = \<lfloor>m\<rfloor> + 1"
    then have "1/2 \<le> m - of_int \<lfloor>m\<rfloor>"
      by (auto simp: roundHalfEven_def Let_def split: if_splits)
    with a r show ?thesis by simp
  qed
qed

lemma quantum_pos [simp]: "0 < quantum x"
  by (simp add: quantum_def)

lemma quantum_nonneg [simp]: "0 \<le> quantum x"
  using quantum_pos[of x] by (rule less_imp_le)

lemma quantum_ge_min: "2 powi (- 1074) \<le> quantum x"
  unfolding quantum_def by (rule power_int_increasing) simp_all

lemma quantum_le:
  assumes "0 < x" "2 powi (- 1074) \<le> x"
  shows "quantum x \<le> x"
proof (cases "- 1022 \<le> expo x")
  case True
  have "quantum x = 2 powi (expo x - 52)" using True assms(1) by (simp add: quantum_def max_def)
  also have "\<dots> \<le> 2 powi (expo x)" by (rule power_int_increasing) simp_all
  also have "\<dots> \<le> x" by (rule expo_le[OF assms(1)])
  finally show ?thesis .
next
  case False
  then have "quantum x = 2 powi (- 1074)" using assms(1) by (simp add: quantum_def max_def)
  with assms(2) show ?thesis by simp
qed

lemma quantum_small:
  assumes "0 < x" "x < 2 ^ 53"
  shows "\<exists>j::nat. quantum x = 1 / 2 ^ j"
proof -
  have "x < 2 powi 53" using assms(2) by simp
  then have e: "expo x < 53" by (rule expo_less[OF assms(1)])
  define j where "j = nat (52 - max (expo x) (- 1022))"
  have "max (expo x) (- 1022) - 52 = - int j" using e by (simp add: j_def)
  then have "quantum x = 2 powi (- int j)" using assms(1) by (simp add: quantum_def)
  also have "\<dots> = 1 / 2 ^ j" by (simp add: power_int_minus_divide)
  finally show ?thesis by blast
qed

lemma quantum_upper:
  assumes "0 < x" "x < 2 powi e" "- 1021 \<le> e"
  shows "quantum x \<le> 2 powi (e - 53)"
proof -
  have "expo x < e" by (rule expo_less[OF assms(1,2)])
  then have "max (expo x) (- 1022) - 52 \<le> e - 53" using assms(3) by simp
  then have "(2::rat) powi (max (expo x) (- 1022) - 52) \<le> 2 powi (e - 53)"
    by (intro power_int_increasing) simp_all
  then show ?thesis using assms(1) by (simp add: quantum_def)
qed

lemma quantum_normal:
  assumes "0 < x" "2 powi (- 1022) \<le> x" "x < 2 ^ 52"
  shows "quantum x \<le> x / 2 ^ 52" "\<exists>j::nat. quantum x = 1 / 2 ^ (j + 1)"
proof -
  have e1: "- 1022 \<le> expo x" by (rule expo_ge[OF assms(1,2)])
  have "x < 2 powi 52" using assms(3) by simp
  then have e2: "expo x < 52" by (rule expo_less[OF assms(1)])
  have q: "quantum x = 2 powi (expo x - 52)" using e1 assms(1) by (simp add: quantum_def max_def)
  have "(2::rat) powi (expo x - 52) = 2 powi (expo x) / 2 ^ 52"
    by (simp add: power_int_diff)
  also have "\<dots> \<le> x / 2 ^ 52" using expo_le[OF assms(1)] by (simp add: divide_right_mono)
  finally show "quantum x \<le> x / 2 ^ 52" by (simp add: q)
  define i where "i = nat (52 - expo x)"
  have "expo x - 52 = - int i" using e2 by (simp add: i_def)
  then have "quantum x = 2 powi (- int i)" by (simp add: q)
  also have "\<dots> = 1 / 2 ^ i" by (simp add: power_int_minus_divide)
  finally have "quantum x = 1 / 2 ^ i" .
  moreover have "i = (i - 1) + 1" using e2 by (simp add: i_def)
  ultimately have "quantum x = 1 / 2 ^ ((i - 1) + 1)" by simp
  then show "\<exists>j::nat. quantum x = 1 / 2 ^ (j + 1)" by (rule exI)
qed

lemma fl_pos:
  assumes "0 < x"
  shows "fl x = (if 2 powi 1024 \<le> of_int (roundHalfEven (x / quantum x)) * quantum x then PInf
                 else Fin (of_int (roundHalfEven (x / quantum x)) * quantum x))"
  using assms by (simp add: fl_def Let_def)

lemma fl_upper:
  assumes "0 < x" "x \<le> of_nat N" "N < 2 ^ 53"
  shows "\<exists>r. fl x = Fin r \<and> 0 \<le> r \<and> r \<le> of_nat N \<and>
             r = of_int (roundHalfEven (x / quantum x)) * quantum x"
proof -
  have n53: "(of_nat N :: rat) < 2 ^ 53" using assms(3)
    by (metis of_nat_less_iff of_nat_numeral of_nat_power)
  with assms(2) have x53: "x < 2 ^ 53" by simp
  obtain j :: nat where q: "quantum x = 1 / 2 ^ j" using quantum_small[OF assms(1) x53] by blast
  define m where "m = x / quantum x"
  define r where "r = of_int (roundHalfEven m) * quantum x"
  have "0 \<le> m" using assms(1) by (simp add: m_def)
  then have "0 \<le> \<lfloor>m\<rfloor>" by simp
  with roundHalfEven_bounds[of m] have "0 \<le> roundHalfEven m" by linarith
  then have r0: "0 \<le> r" by (simp add: r_def)
  have "m = x * 2 ^ j" by (simp add: m_def q)
  also have "\<dots> \<le> of_nat N * 2 ^ j" using assms(2) by simp
  also have "\<dots> = of_int (int N * 2 ^ j)" by simp
  finally have "\<lceil>m\<rceil> \<le> int N * 2 ^ j" by (simp only: ceiling_le_iff)
  with roundHalfEven_bounds[of m] have "roundHalfEven m \<le> int N * 2 ^ j" by linarith
  then have "(of_int (roundHalfEven m) :: rat) \<le> of_int (int N * 2 ^ j)"
    by (simp only: of_int_le_iff)
  then have "of_int (roundHalfEven m) / 2 ^ j \<le> (of_nat N :: rat)"
    by (simp add: field_simps)
  then have rle: "r \<le> of_nat N" by (simp add: r_def q)
  have "(2::rat) ^ 53 \<le> 2 powi 1024" by simp
  with n53 rle have "r < 2 powi 1024" by simp
  then have "fl x = Fin r" using assms(1) by (simp add: fl_pos r_def m_def not_le)
  with r0 rle show ?thesis by (auto simp: r_def m_def)
qed

lemma fl_lower:
  assumes "0 < x" "2 powi (- 1074) \<le> x"
  shows "0 < of_int (roundHalfEven (x / quantum x)) * quantum x"
proof -
  define m where "m = x / quantum x"
  have "quantum x \<le> x" by (rule quantum_le[OF assms])
  then have "1 \<le> m" by (simp add: m_def)
  then have "1 \<le> \<lfloor>m\<rfloor>" by simp
  with roundHalfEven_bounds[of m] have "1 \<le> roundHalfEven m" by linarith
  then have "(0::rat) < of_int (roundHalfEven m)" by simp
  then show ?thesis unfolding m_def[symmetric] by (simp add: zero_less_mult_iff)
qed

lemma fl_bounds:
  assumes "0 < x" "x \<le> of_nat N" "N < 2 ^ 53" "2 powi (- 1074) \<le> x"
  shows "\<exists>r. fl x = Fin r \<and> 0 < r \<and> r \<le> of_nat N"
  using fl_upper[OF assms(1-3)] fl_lower[OF assms(1,4)] by auto

lemma fl_not_NaN [simp]: "fl x \<noteq> NaN"
  by (simp add: fl_def Let_def)

lemma fl_pos_min:
  assumes "fl p = Fin d" "0 < d"
  shows "2 powi (- 1074) \<le> d"
proof -
  define z where "z = roundHalfEven (\<bar>p\<bar> / quantum p)"
  have d: "d = of_int z * quantum p \<or> d = - (of_int z * quantum p)"
    using assms by (auto simp: fl_def Let_def z_def split: if_splits)
  have "0 \<le> \<bar>p\<bar> / quantum p" by simp
  then have "0 \<le> \<lfloor>\<bar>p\<bar> / quantum p\<rfloor>" by simp
  with roundHalfEven_bounds[of "\<bar>p\<bar> / quantum p"] have z0: "0 \<le> z" unfolding z_def by linarith
  then have "(0::rat) \<le> of_int z * quantum p" by simp
  with d assms(2) have dz: "d = of_int z * quantum p" by linarith
  have "z \<noteq> 0" using dz assms(2) by auto
  with z0 have "(1::rat) \<le> of_int z" by simp
  then have "1 * quantum p \<le> of_int z * quantum p" by (intro mult_right_mono) simp_all
  with dz have "quantum p \<le> d" by simp
  with quantum_ge_min[of p] show ?thesis by simp
qed

lemma fl_unit:
  assumes "0 \<le> p" "p \<le> 1"
  shows "\<exists>d. fl p = Fin d \<and> 0 \<le> d \<and> d \<le> 1"
proof (cases "p = 0")
  case True
  then show ?thesis by (simp add: fl_def)
next
  case False
  with assms have "0 < p" "p \<le> of_nat (1::nat)" by simp_all
  from fl_upper[OF this] show ?thesis by auto
qed

lemma fl_error:
  assumes "0 < x" "x < 2 powi e" "- 1021 \<le> e"
  shows "\<bar>of_int (roundHalfEven (x / quantum x)) * quantum x - x\<bar> \<le> 2 powi (e - 53) / 2"
proof -
  define q where "q = quantum x"
  have q: "0 < q" by (simp add: q_def)
  have "\<bar>of_int (roundHalfEven (x / q)) * q - x\<bar> = \<bar>of_int (roundHalfEven (x / q)) - x / q\<bar> * q"
  proof -
    have "of_int (roundHalfEven (x / q)) * q - x = (of_int (roundHalfEven (x / q)) - x / q) * q"
      using q by (simp add: field_simps)
    then show ?thesis using q by (simp add: abs_mult)
  qed
  also have "\<dots> \<le> (1/2) * q"
    using roundHalfEven_error[of "x / q"] q by (intro mult_right_mono) simp_all
  also have "\<dots> \<le> (1/2) * 2 powi (e - 53)"
    using quantum_upper[OF assms] by (simp add: q_def)
  finally show ?thesis by (simp add: q_def)
qed

lemma fl_of_nat:
  assumes "k < 2 ^ 53"
  shows "fl (of_nat k) = Fin (of_nat k)"
proof (cases "k = 0")
  case True
  then show ?thesis by (simp add: fl_def)
next
  case False
  then have kpos: "0 < (of_nat k :: rat)" by simp
  have k53: "(of_nat k :: rat) < 2 ^ 53" using assms
    by (metis of_nat_less_iff of_nat_numeral of_nat_power)
  obtain j :: nat where q: "quantum (of_nat k) = 1 / 2 ^ j"
    using quantum_small[OF kpos k53] by blast
  have "of_nat k / quantum (of_nat k) = (of_int (int k * 2 ^ j) :: rat)" by (simp add: q)
  then have "roundHalfEven (of_nat k / quantum (of_nat k)) = int k * 2 ^ j"
    by (simp only: roundHalfEven_of_int)
  then have r: "of_int (roundHalfEven (of_nat k / quantum (of_nat k))) * quantum (of_nat k) =
                (of_nat k :: rat)"
    by (simp add: q)
  have "(of_nat k :: rat) < 2 powi 1024" using k53 by (rule less_le_trans) simp
  then show ?thesis unfolding fl_pos[OF kpos] r by (simp add: not_le)
qed

lemma fl_neg: "fl (- x) = js_neg (fl x)"
proof -
  have q: "quantum (- x) = quantum x" by (simp add: quantum_def)
  show ?thesis
  proof (cases "x = 0")
    case True
    then show ?thesis by (simp add: fl_def)
  next
    case False
    then consider "0 < x" | "x < 0" by linarith
    then show ?thesis
    proof cases
      case 1
      then show ?thesis unfolding fl_def Let_def q by auto
    next
      case 2
      then show ?thesis unfolding fl_def Let_def q by auto
    qed
  qed
qed

lemma fl_of_int_nonneg:
  assumes "0 \<le> k" "k < 2 ^ 53"
  shows "fl (of_int k) = Fin (of_int k)"
proof -
  have "nat k < 2 ^ 53" using assms by (simp add: nat_less_iff)
  from fl_of_nat[OF this] show ?thesis using assms(1) by simp
qed

lemma fl_dyadic:
  assumes "0 < k" "k < 2 ^ 53" "j \<le> 1074"
  shows "fl (of_nat k / 2 ^ j) = Fin (of_nat k / 2 ^ j)"
proof -
  define x :: rat where "x = of_nat k / 2 ^ j"
  have x0: "0 < x" using assms(1) by (simp add: x_def)
  have k53: "(of_nat k :: rat) < 2 ^ 53" using assms(2)
    by (metis of_nat_less_iff of_nat_numeral of_nat_power)
  have "x < 2 ^ 53 / 2 ^ j" unfolding x_def using k53 by (intro divide_strict_right_mono) simp_all
  also have "\<dots> = 2 powi (53 - int j)" by (simp add: power_int_diff)
  finally have "expo x < 53 - int j" by (rule expo_less[OF x0])
  then have "max (expo x) (- 1022) - 52 \<le> - int j" using assms(3) by simp
  define i where "i = nat (- int j - (max (expo x) (- 1022) - 52))"
  define m where "m = j + i"
  have "max (expo x) (- 1022) - 52 = - int m"
    using \<open>max (expo x) (- 1022) - 52 \<le> - int j\<close> by (simp add: i_def m_def)
  then have "quantum x = 2 powi (- int m)" using x0 by (simp add: quantum_def)
  also have "\<dots> = 1 / 2 ^ m" by (simp add: power_int_minus_divide)
  finally have q: "quantum x = 1 / 2 ^ (j + i)" by (simp only: m_def)
  have "x / quantum x = of_int (int k * 2 ^ i)" unfolding q by (simp add: x_def power_add)
  then have rh: "roundHalfEven (x / quantum x) = int k * 2 ^ i"
    by (simp only: roundHalfEven_of_int)
  have "of_int (int k * 2 ^ i) * quantum x = x" unfolding q by (simp add: x_def power_add)
  then have r: "of_int (roundHalfEven (x / quantum x)) * quantum x = x" by (simp only: rh)
  have "x \<le> of_nat k / 1" unfolding x_def by (intro divide_left_mono) simp_all
  with k53 have "x < 2 ^ 53" by simp
  then have "x < 2 powi 1024" by (rule less_le_trans) simp
  then show ?thesis unfolding x_def[symmetric] fl_pos[OF x0] r by (simp add: not_le)
qed

lemma sample_nonneg:
  assumes "0 \<le> x" "x < 2 ^ 53"
  shows "sample x = Fin (of_int x)"
proof -
  have "nat x < 2 ^ 53" using assms by (simp add: nat_less_iff)
  from fl_of_nat[OF this] show ?thesis using assms(1) by (simp add: sample_def)
qed

text \<open>
  The quotient of a sum below \<open>2 ^ 52\<close> by a length is rounded to the integer that the
  exact quotient is rounded to.
\<close>

lemma round_fl_div:
  assumes "0 \<le> S" "S < 2 ^ 52" "0 < n" "n < 2 ^ 32"
  shows "Math_round (fl (of_int S / of_nat n)) = Fin (of_int (round (of_int S / of_nat n :: rat)))"
proof (cases "S = 0")
  case True
  then show ?thesis by (simp add: fl_def round_def)
next
  case False
  define x :: rat where "x = of_int S / of_nat n"
  define K where "K = round x"
  have S0: "0 < S" using False assms(1) by simp
  have nr: "(0::rat) < of_nat n" using assms(3) by simp
  have x0: "0 < x" using S0 nr by (simp add: x_def)
  have n1: "(1::rat) \<le> of_nat n" using assms(3) by simp
  have "of_int S / of_nat n \<le> (of_int S :: rat) / 1"
    using S0 n1 by (intro divide_left_mono) simp_all
  then have xS: "x \<le> of_int S" by (simp add: x_def)
  have Sr: "(of_int S :: rat) < 2 ^ 52" using assms(2)
    by (metis of_int_less_iff of_int_numeral of_int_power)
  have x52: "x < 2 ^ 52" using xS Sr by simp
  have "x \<le> of_nat (nat S)" using xS S0 by simp
  moreover have "nat S < 2 ^ 53" using assms(2) S0 by (simp add: nat_less_iff)
  ultimately obtain r where r: "fl x = Fin r"
    "r = of_int (roundHalfEven (x / quantum x)) * quantum x"
    using fl_upper[OF x0] by blast
  have n32: "(of_nat n :: rat) < 2 ^ 32" using assms(4)
    by (metis of_nat_less_iff of_nat_numeral of_nat_power)
  have "1 / 2 ^ 32 < 1 / (of_nat n :: rat)" using n32 nr by (simp add: field_simps)
  also have "\<dots> \<le> x"
  proof -
    have "(1::rat) \<le> of_int S" using S0 by simp
    then show ?thesis unfolding x_def by (intro divide_right_mono) simp_all
  qed
  finally have x32: "1 / 2 ^ 32 < x" .
  have "(2::rat) powi (- 1022) \<le> 1 / 2 ^ 32" by (simp add: power_int_minus_divide)
  with x32 have xmin: "2 powi (- 1022) \<le> x" by simp
  obtain j :: nat where q: "quantum x = 1 / 2 ^ (j + 1)"
    using quantum_normal(2)[OF x0 xmin x52] by blast
  have qx: "quantum x \<le> x / 2 ^ 52" by (rule quantum_normal(1)[OF x0 xmin x52])
  define m where "m = x / quantum x"
  have m: "m = x * 2 ^ (j + 1)" by (simp add: m_def q)
  have K: "of_int K \<le> x + 1/2" "x + 1/2 < of_int K + 1"
    unfolding K_def round_def by linarith+
  have "of_int ((2 * K - 1) * 2 ^ j) = (of_int K - 1/2) * (2::rat) ^ (j + 1)"
    by (simp add: algebra_simps)
  also have "\<dots> \<le> x * 2 ^ (j + 1)" using K(1) by (intro mult_right_mono) simp_all
  finally have "of_int ((2 * K - 1) * 2 ^ j) \<le> m" by (simp only: m)
  then have "(2 * K - 1) * 2 ^ j \<le> \<lfloor>m\<rfloor>" by (simp only: le_floor_iff)
  with roundHalfEven_bounds[of m] have "(2 * K - 1) * 2 ^ j \<le> roundHalfEven m" by linarith
  then have "(of_int ((2 * K - 1) * 2 ^ j) :: rat) \<le> of_int (roundHalfEven m)"
    by (simp only: of_int_le_iff)
  then have A: "of_int ((2 * K - 1) * 2 ^ j) * quantum x \<le> of_int (roundHalfEven m) * quantum x"
    by (intro mult_right_mono) simp_all
  have B: "of_int ((2 * K - 1) * 2 ^ j) * quantum x = of_int K - 1/2"
    by (simp add: q field_simps)
  have lower: "of_int K - 1/2 \<le> r" using A unfolding B r(2) m_def .
  have "of_int (2 * S) < (of_int ((2 * K + 1) * int n) :: rat)"
  proof -
    have "x * (2 * of_nat n) < (of_int K + 1/2) * (2 * of_nat n)"
      using K(2) nr by (intro mult_strict_right_mono) simp_all
    moreover have "x * (2 * of_nat n) = of_int (2 * S)" using nr by (simp add: x_def)
    moreover have "(of_int K + 1/2) * (2 * of_nat n) = (of_int ((2 * K + 1) * int n) :: rat)"
      by (simp add: algebra_simps)
    ultimately show ?thesis by simp
  qed
  then have "2 * S < (2 * K + 1) * int n" by (simp only: of_int_less_iff)
  then have "2 * S + 1 \<le> (2 * K + 1) * int n" by simp
  then have "(of_int (2 * S + 1) :: rat) \<le> of_int ((2 * K + 1) * int n)"
    by (simp only: of_int_le_iff)
  then have "(2 * of_int S + 1 :: rat) \<le> (2 * of_int K + 1) * of_nat n" by simp
  then have "(2 * of_int S + 1) / (2 * of_nat n) \<le> ((2 * of_int K + 1) * of_nat n) / (2 * of_nat n :: rat)"
    by (rule divide_right_mono) simp
  moreover have "x + 1 / (2 * of_nat n) = (2 * of_int S + 1) / (2 * of_nat n)"
    using nr by (simp add: x_def field_simps)
  moreover have "of_int K + 1/2 = ((2 * of_int K + 1) * of_nat n) / (2 * of_nat n :: rat)"
    using nr by (simp add: field_simps)
  ultimately have gap: "x + 1 / (2 * of_nat n) \<le> of_int K + 1/2" by (simp only:)
  have "x / 2 ^ 52 < 1 / of_nat n"
  proof -
    have "x * of_nat n = of_int S" using nr by (simp add: x_def)
    with Sr have "x * of_nat n < 2 ^ 52" by simp
    then show ?thesis using nr by (simp add: field_simps)
  qed
  with qx have qn: "quantum x < 1 / of_nat n" by simp
  have "r = of_int (roundHalfEven m) * quantum x" by (simp add: r(2) m_def)
  also have "\<dots> \<le> (m + 1/2) * quantum x"
    using roundHalfEven_le_half[of m] by (intro mult_right_mono) simp_all
  also have "\<dots> = x + quantum x / 2"
  proof -
    have "quantum x \<noteq> 0" by (simp add: quantum_def)
    then show ?thesis by (simp add: m_def algebra_simps)
  qed
  also have "\<dots> < x + (1 / of_nat n) / 2" using qn by simp
  also have "\<dots> \<le> of_int K + 1/2" using gap by simp
  finally have upper: "r < of_int K + 1/2" .
  have "\<lfloor>r + 1/2\<rfloor> = K" using lower upper by (intro floor_unique) simp_all
  then show ?thesis by (simp add: r(1) x_def[symmetric] K_def)
qed

lemma expo_eq:
  assumes "0 < x" "2 powi e \<le> x" "x < 2 powi (e + 1)"
  shows "expo x = e"
  using expo_less[OF assms(1,3)] expo_ge[OF assms(1,2)] by simp

lemma roundHalfEven_eq:
  assumes "of_int z - 1/2 < m" "m < of_int z + 1/2"
  shows "roundHalfEven m = z"
proof (cases "of_int z \<le> m")
  case True
  then have "\<lfloor>m\<rfloor> = z" using assms(2) by (intro floor_unique) simp_all
  then show ?thesis using assms(2) by (simp add: roundHalfEven_def Let_def)
next
  case False
  then have f: "\<lfloor>m\<rfloor> = z - 1" using assms(1) by (intro floor_unique) simp_all
  have "1/2 < m - of_int (z - 1)" using assms(1) by simp
  then show ?thesis unfolding roundHalfEven_def Let_def f by simp
qed

lemma roundHalfEven_tie:
  assumes "m = of_int z + 1/2"
  shows "roundHalfEven m = (if even z then z else z + 1)"
proof -
  have "\<lfloor>m\<rfloor> = z" unfolding assms by (intro floor_unique) simp_all
  then show ?thesis by (simp add: roundHalfEven_def Let_def assms)
qed

text \<open>The value of \<open>fl\<close> on a number whose binary exponent is known.\<close>

lemma fl_exponent:
  assumes "0 < x" "2 powi e \<le> x" "x < 2 powi (e + 1)" "- 1022 \<le> e" "e < 1023"
  shows "fl x = Fin (of_int (roundHalfEven (x / 2 powi (e - 52))) * 2 powi (e - 52))"
proof -
  have q: "quantum x = 2 powi (e - 52)"
    using assms(1,4) expo_eq[OF assms(1-3)] by (simp add: quantum_def max_def)
  define m where "m = x / 2 powi (e - 52)"
  have "(2::rat) powi (53 + (e - 52)) = 2 powi 53 * 2 powi (e - 52)"
    by (rule power_int_add) simp
  moreover have "53 + (e - 52) = e + 1" by simp
  ultimately have pw: "(2::rat) powi (e + 1) = 2 powi 53 * 2 powi (e - 52)" by simp
  have "m < 2 powi (e + 1) / 2 powi (e - 52)"
    unfolding m_def using assms(3) by (intro divide_strict_right_mono) simp_all
  also have "\<dots> = of_int (2 ^ 53)" unfolding pw by simp
  finally have "\<lceil>m\<rceil> \<le> 2 ^ 53" by (simp only: ceiling_le_iff less_imp_le)
  with roundHalfEven_bounds[of m] have "roundHalfEven m \<le> 2 ^ 53" by linarith
  then have "(of_int (roundHalfEven m) :: rat) \<le> of_int (2 ^ 53)" by (simp only: of_int_le_iff)
  then have "of_int (roundHalfEven m) * 2 powi (e - 52) \<le> (of_int (2 ^ 53) :: rat) * 2 powi (e - 52)"
    by (intro mult_right_mono) simp_all
  also have "\<dots> = 2 powi (e + 1)" unfolding pw by simp
  also have "\<dots> \<le> 2 powi 1023" using assms(5) by (intro power_int_increasing) simp_all
  also have "\<dots> < 2 powi 1024" by simp
  finally have "(of_int (roundHalfEven m) :: rat) * 2 powi (e - 52) < 2 powi 1024" .
  then show ?thesis unfolding fl_pos[OF assms(1)] q m_def by (simp add: not_le)
qed

section \<open>The aggregate of a window\<close>

lemma foldl_reduceStep_times:
  "rawRequestTimes (foldl (reduceStep True) acc bs) =
     map_option (\<lambda>ts. ts @ concat (map requestTimes bs)) (rawRequestTimes acc)"
  by (induction bs arbitrary: acc)
     (auto simp: reduceStep_def Let_def option.map_comp comp_def option.map_ident)

lemma foldl_reduceStep_tallies:
  "total (foldl (reduceStep incl) acc bs) = total acc + sum_list (map total bs) \<and>
   failed (foldl (reduceStep incl) acc bs) = failed acc + sum_list (map failed bs) \<and>
   timedOut (foldl (reduceStep incl) acc bs) = timedOut acc + sum_list (map timedOut bs) \<and>
   successful (foldl (reduceStep incl) acc bs) = successful acc + sum_list (map successful bs) \<and>
   shortCircuited (foldl (reduceStep incl) acc bs) =
     shortCircuited acc + sum_list (map shortCircuited bs)"
  by (induction bs arbitrary: acc) (auto simp: reduceStep_def Let_def)

lemma foldl_reduceStep_rest:
  "latencyMean (foldl (reduceStep incl) acc bs) = latencyMean acc \<and>
   percentiles (foldl (reduceStep incl) acc bs) = percentiles acc \<and>
   counts (foldl (reduceStep incl) acc bs) = counts acc"
  by (induction bs arbitrary: acc) (auto simp: reduceStep_def Let_def)

lemma fold_update_levels:
  "map_of (fold (\<lambda>p m. AList.update (k p) (f (k p)) m) ps m0) q =
     (if q \<in> k ` set ps then Some (f q) else map_of m0 q)"
  by (induction ps arbitrary: m0) (auto simp: update_conv')

lemma orZero_fl [simp]: "orZero (Some (fl x)) = fl x"
  by (cases "fl x") (simp_all add: orZero_def)

lemma orZero_sample [simp]: "orZero (Some (sample x)) = sample x"
  by (simp add: sample_def)

lemma orZero_None [simp]: "orZero None = Fin 0"
  by (simp add: orZero_def)

lemma orZero_NaN [simp]: "orZero (Some NaN) = Fin 0"
  by (simp add: orZero_def)

lemma orZero_Fin [simp]: "orZero (Some (Fin x)) = Fin x"
  by (simp add: orZero_def)

text \<open>
  The index of a percentile level in [0, 1] that is not zero: an integer from 1 to the
  number of samples, at most one beside the exact \<open>ceil(p * n)\<close>.
\<close>

lemma percentile_index:
  assumes "0 \<le> p" "p \<le> 1" "fl p \<noteq> Fin 0" "0 < n" "n < 2 ^ 32"
  shows "\<exists>k. Math_ceil (js_mul (fl p) (Fin (of_nat n))) = Fin (of_int k) \<and> 1 \<le> k \<and> k \<le> int n \<and>
             \<bar>k - \<lceil>p * of_nat n\<rceil>\<bar> \<le> 1"
proof -
  have p0: "0 < p" using assms(1,3) by (cases "p = 0") (simp_all add: fl_def)
  have "p \<le> of_nat (1::nat)" using assms(2) by simp
  from fl_upper[OF p0 this]
  obtain d where d: "fl p = Fin d" "0 \<le> d" "d \<le> 1"
    "d = of_int (roundHalfEven (p / quantum p)) * quantum p" by auto
  have d0: "0 < d" using d(1,2) assms(3) by (cases "d = 0") simp_all
  have dmin: "2 powi (- 1074) \<le> d" by (rule fl_pos_min[OF d(1) d0])
  have n1: "(1::rat) \<le> of_nat n" using assms(4) by simp
  have n53: "n < 2 ^ 53" using assms(5) by (rule less_trans) simp
  have nr: "(of_nat n :: rat) < 2 ^ 32" using assms(5)
    by (metis of_nat_less_iff of_nat_numeral of_nat_power)
  define x where "x = d * of_nat n"
  have x0: "0 < x" using d0 assms(4) by (simp add: x_def)
  have "d * 1 \<le> d * of_nat n" using d0 n1 by (intro mult_left_mono) simp_all
  then have dx: "d \<le> x" by (simp add: x_def)
  have "d * of_nat n \<le> 1 * of_nat n" using d(3) by (intro mult_right_mono) simp_all
  then have xn: "x \<le> of_nat n" by (simp add: x_def)
  have xmin: "2 powi (- 1074) \<le> x" using dmin dx by simp
  from fl_upper[OF x0 xn n53] fl_lower[OF x0 xmin]
  obtain r where r: "fl x = Fin r" "0 < r" "r \<le> of_nat n"
    "r = of_int (roundHalfEven (x / quantum x)) * quantum x" by auto
  have c1: "1 \<le> \<lceil>r\<rceil>" using r(2) by (simp add: less_ceiling_iff[symmetric])
  have "r \<le> of_int (int n)" using r(3) by simp
  then have c2: "\<lceil>r\<rceil> \<le> int n" by (simp only: ceiling_le_iff)
  have "p < 2 powi 1" using assms(2) by simp
  from fl_error[OF p0 this] d(4) have e1: "\<bar>d - p\<bar> \<le> 2 powi (- 52) / 2" by simp
  have "x < 2 powi 32" using xn nr by simp
  from fl_error[OF x0 this] r(4) have e2: "\<bar>r - x\<bar> \<le> 2 powi (- 21) / 2" by simp
  have "\<bar>x - p * of_nat n\<bar> = \<bar>d - p\<bar> * of_nat n"
  proof -
    have "x - p * of_nat n = (d - p) * of_nat n" by (simp add: x_def algebra_simps)
    then show ?thesis by (simp add: abs_mult)
  qed
  also have "\<dots> \<le> (2 powi (- 52) / 2) * 2 ^ 32"
    using e1 nr by (intro mult_mono) simp_all
  finally have e3: "\<bar>x - p * of_nat n\<bar> \<le> (2 powi (- 52) / 2) * 2 ^ 32" .
  have "(2::rat) powi (- 52) / 2 * 2 ^ 32 + 2 powi (- 21) / 2 < 1"
    by (simp add: power_int_minus_divide)
  with e2 e3 have close: "\<bar>r - p * of_nat n\<bar> < 1" by linarith
  have "\<lceil>r\<rceil> \<le> \<lceil>p * of_nat n + 1\<rceil>" using close by (intro ceiling_mono) linarith
  moreover have "\<lceil>p * of_nat n\<rceil> \<le> \<lceil>r + 1\<rceil>" using close by (intro ceiling_mono) linarith
  ultimately have c3: "\<bar>\<lceil>r\<rceil> - \<lceil>p * of_nat n\<rceil>\<bar> \<le> 1" by simp
  have "Math_ceil (js_mul (fl p) (Fin (of_nat n))) = Fin (of_int \<lceil>r\<rceil>)"
    using d(1) r(1) by (simp add: x_def)
  with c1 c2 c3 show ?thesis by blast
qed

lemma at_number_index:
  assumes "1 \<le> k" "k \<le> int (length xs)" "length xs < 2 ^ 32"
  shows "at_number xs (js_sub (Fin (of_int k)) (Fin 1)) = Some (xs ! nat (k - 1))"
proof -
  have "nat (k - 1) < 2 ^ 53" using assms by simp
  from fl_of_nat[OF this] have "fl (of_int (k - 1)) = Fin (of_int (k - 1))"
    using assms(1) by simp
  then have "js_sub (Fin (of_int k)) (Fin 1) = Fin (of_int (k - 1))"
    by (simp add: js_sub_def)
  moreover have "(of_int (k - 1) :: rat) < of_nat (length xs)"
  proof -
    have "k - 1 < int (length xs)" using assms(2) by simp
    then have "(of_int (k - 1) :: rat) < of_int (int (length xs))" by (simp only: of_int_less_iff)
    then show ?thesis by simp
  qed
  ultimately show ?thesis using assms(1) by (simp add: at_number_def)
qed

lemma calculatePercentile_rule:
  assumes "0 \<le> p" "p \<le> 1" "length xs < 2 ^ 32"
  shows "if xs = [] then calculatePercentile (fl p) xs = None
         else if fl p = Fin 0 then calculatePercentile (fl p) xs = Some (xs ! 0)
         else \<exists>k. Math_ceil (js_mul (fl p) (Fin (of_nat (length xs)))) = Fin (of_int k) \<and>
                  1 \<le> k \<and> k \<le> int (length xs) \<and> \<bar>k - \<lceil>p * of_nat (length xs)\<rceil>\<bar> \<le> 1 \<and>
                  calculatePercentile (fl p) xs = Some (xs ! nat (k - 1))"
proof (cases "xs = []")
  case True
  obtain d where d: "fl p = Fin d" using fl_unit[OF assms(1,2)] by blast
  have "fl (- 1) = Fin (- 1)" using fl_neg[of 1] fl_of_nat[of 1] by simp
  then show ?thesis using True d
    by (simp add: calculatePercentile_def at_number_def js_sub_def fl_def[of 0])
next
  case False
  show ?thesis
  proof (cases "fl p = Fin 0")
    case True
    with False show ?thesis by (simp add: calculatePercentile_def at_number_def)
  next
    case nz: False
    from False have "0 < length xs" by simp
    from percentile_index[OF assms(1,2) nz this assms(3)]
    obtain k where k: "Math_ceil (js_mul (fl p) (Fin (of_nat (length xs)))) = Fin (of_int k)"
      "1 \<le> k" "k \<le> int (length xs)" "\<bar>k - \<lceil>p * of_nat (length xs)\<rceil>\<bar> \<le> 1" by blast
    have "calculatePercentile (fl p) xs = Some (xs ! nat (k - 1))"
      using nz k(1) at_number_index[OF k(2,3) assms(3)]
      by (simp add: calculatePercentile_def Let_def)
    with k False nz show ?thesis by auto
  qed
qed

lemma foldl_js_add_exact:
  assumes "\<forall>x \<in> set a. 0 \<le> x" "0 \<le> z" "z + sum_list a < 2 ^ 53"
  shows "foldl (\<lambda>a b. js_add a b) (Fin (of_int z)) (map sample a) = Fin (of_int (z + sum_list a))"
  using assms
proof (induction a arbitrary: z)
  case Nil
  then show ?case by simp
next
  case (Cons x a)
  have x0: "0 \<le> x" and a0: "\<forall>y \<in> set a. 0 \<le> y" using Cons.prems(1) by simp_all
  have s0: "0 \<le> sum_list a" using a0 by (simp add: sum_list_nonneg)
  have "x < 2 ^ 53" using Cons.prems(2,3) s0 by simp
  then have sx: "sample x = Fin (of_int x)" by (rule sample_nonneg[OF x0])
  have "z + x < 2 ^ 53" using Cons.prems(3) s0 by simp
  moreover have zx: "0 \<le> z + x" using Cons.prems(2) x0 by simp
  ultimately have "fl (of_int (z + x)) = Fin (of_int (z + x))" by (intro fl_of_int_nonneg)
  then have step: "js_add (Fin (of_int z)) (sample x) = Fin (of_int (z + x))" by (simp add: sx)
  have "z + x + sum_list a < 2 ^ 53" using Cons.prems(3) by (simp add: algebra_simps)
  from Cons.IH[OF a0 zx this] show ?case by (simp add: step algebra_simps)
qed

lemma js_sum_exact:
  assumes "\<forall>x \<in> set a. 0 \<le> x" "sum_list a < 2 ^ 53"
  shows "js_sum (map sample a) = Fin (of_int (sum_list a))"
  using foldl_js_add_exact[OF assms(1), of 0] assms(2) by (simp add: js_sum_def)

lemma calculateMean_exact:
  assumes "\<forall>x \<in> set a. 0 \<le> x" "sum_list a < 2 ^ 52" "a \<noteq> []" "length a < 2 ^ 32"
  shows "calculateMean (map sample a) =
           Fin (of_int (round (of_int (sum_list a) / of_nat (length a) :: rat)))"
proof -
  have "sum_list a < 2 ^ 53" using assms(2) by (rule less_trans) simp
  from js_sum_exact[OF assms(1) this]
  have s: "js_sum (map sample a) = Fin (of_int (sum_list a))" .
  have s0: "0 \<le> sum_list a" using assms(1) by (simp add: sum_list_nonneg)
  have n0: "0 < length a" using assms(3) by simp
  from round_fl_div[OF s0 assms(2) n0 assms(4)] n0
  show ?thesis by (simp add: calculateMean_def s Let_def)
qed

lemma calculateMean_empty: "orZero (Some (calculateMean [])) = Fin 0"
  by (simp add: calculateMean_def js_sum_def Let_def)

lemma fl_55: "fl (55/100) = Fin (4953959590107546 / 2 ^ 53)"
proof -
  have p: "(2::rat) powi (- 1 - 52) = 1 / 2 ^ 53" "(2::rat) powi (- 1) = 1 / 2"
    "(2::rat) powi (- 1 + 1) = 1"
    by (simp_all add: power_int_minus_divide)
  have "roundHalfEven ((55/100) / (2::rat) powi (- 1 - 52)) = 4953959590107546"
    unfolding p by (rule roundHalfEven_eq) simp_all
  with fl_exponent[of "55/100" "- 1"] show ?thesis by (simp add: p)
qed

lemma fl_55_100: "js_mul (fl (55/100)) (Fin 100) = Fin (7740561859543041 / 2 ^ 47)"
proof -
  have p: "(2::rat) powi (5 - 52) = 1 / 2 ^ 47" "(2::rat) powi 5 = 32" "(2::rat) powi (5 + 1) = 64"
    by (simp_all add: power_int_minus_divide)
  have e: "fl (4953959590107546 / 2 ^ 53 * 100) =
      Fin (of_int (roundHalfEven ((4953959590107546 / 2 ^ 53 * 100) / 2 powi (5 - 52))) *
           2 powi (5 - 52))"
    by (rule fl_exponent) (simp_all add: p)
  have r: "roundHalfEven ((4953959590107546 / 2 ^ 53 * 100) / (2::rat) powi (5 - 52)) =
      7740561859543041"
    unfolding p by (rule roundHalfEven_eq) simp_all
  show ?thesis unfolding fl_55 js_mul.simps e r by (simp add: p)
qed

text \<open>
  The level 0.55 on 100 samples: the product of the source is just above 55, so the
  index is 56, one beside the ceiling 55 of the exact product.
\<close>

lemma percentile_55_of_100:
  "Math_ceil (js_mul (fl (55/100)) (Fin 100)) = Fin 56 \<and> \<lceil>(55/100 :: rat) * 100\<rceil> = 55"
proof -
  have "\<lceil>(7740561859543041 :: rat) / 2 ^ 47\<rceil> = 56" by (simp add: ceiling_eq_iff)
  then have "Math_ceil (js_mul (fl (55/100)) (Fin 100)) = Fin 56"
    unfolding fl_55_100 by simp
  then show ?thesis by simp
qed

text \<open>
  The samples \<open>2 ^ 53\<close> and 1: their sum is rounded to \<open>2 ^ 53\<close>, and the mean is
  \<open>2 ^ 52\<close>, one below the exact quotient rounded.
\<close>

lemma mean_of_large_samples:
  "calculateMean (map sample [2 ^ 53, 1]) = Fin (2 ^ 52) \<and>
   round ((of_int (sum_list [2 ^ 53, 1]) :: rat) / 2) = 2 ^ 52 + 1"
proof -
  have p: "(2::rat) powi (53 - 52) = 2" "(2::rat) powi 53 = 2 ^ 53" "(2::rat) powi (53 + 1) = 2 ^ 54"
    "(2::rat) powi (52 - 52) = 1" "(2::rat) powi 52 = 2 ^ 52" "(2::rat) powi (52 + 1) = 2 ^ 53"
    by simp_all
  have "roundHalfEven ((2 ^ 53) / (2::rat) powi (53 - 52)) = 2 ^ 52"
    unfolding p by (rule roundHalfEven_eq) simp_all
  with fl_exponent[of "2 ^ 53" 53] have a: "fl (2 ^ 53) = Fin (2 ^ 53)" by (simp add: p)
  have "roundHalfEven ((2 ^ 53 + 1) / (2::rat) powi (53 - 52)) = (if even ((2::int) ^ 52) then 2 ^ 52 else 2 ^ 52 + 1)"
    unfolding p by (rule roundHalfEven_tie) simp
  then have "roundHalfEven ((2 ^ 53 + 1) / (2::rat) powi (53 - 52)) = 2 ^ 52" by simp
  with fl_exponent[of "2 ^ 53 + 1" 53] have b: "fl (2 ^ 53 + 1) = Fin (2 ^ 53)" by (simp add: p)
  have "roundHalfEven ((2 ^ 52) / (2::rat) powi (52 - 52)) = 2 ^ 52"
    unfolding p by (rule roundHalfEven_eq) simp_all
  with fl_exponent[of "2 ^ 52" 52] have c: "fl (2 ^ 52) = Fin (2 ^ 52)" by (simp add: p)
  have s: "sample (2 ^ 53) = Fin (2 ^ 53)" "sample 1 = Fin 1"
    using a fl_of_nat[of 1] by (simp_all add: sample_def)
  have f: "\<lfloor>(2::rat) ^ 52 + 1/2\<rfloor> = 2 ^ 52" by (intro floor_unique) simp_all
  have "js_sum (map sample [2 ^ 53, 1]) = js_add (js_add (Fin 0) (sample (2 ^ 53))) (sample 1)"
    by (simp add: js_sum_def)
  also have "\<dots> = fl (2 ^ 53 + 1)" unfolding s js_add.simps by (simp add: a[simplified])
  finally have sum: "js_sum (map sample [2 ^ 53, 1]) = Fin (2 ^ 53)" by (simp only: b)
  have "calculateMean (map sample [2 ^ 53, 1]) = Math_round (fl (2 ^ 52))"
    unfolding calculateMean_def Let_def sum by simp
  also have "\<dots> = Fin (of_int \<lfloor>(2::rat) ^ 52 + 1/2\<rfloor>)" unfolding c Math_round.simps ..
  also have "\<dots> = Fin (2 ^ 52)" unfolding f by simp
  finally have m: "calculateMean (map sample [2 ^ 53, 1]) = Fin (2 ^ 52)" .
  have "round (((2::rat) ^ 53 + 1) / 2) = 2 ^ 52 + 1"
    unfolding round_def by (intro floor_unique) simp_all
  with m show ?thesis by simp
qed

lemma generateStats_times:
  "latencyMean (fst (generateStats bs True s)) =
     orZero (Some (calculateMean (map sample (sort (concat (map requestTimes bs))))))"
  "percentiles (fst (generateStats bs True s)) =
     fold (\<lambda>p m. AList.update (fl p)
             (orZero (calculatePercentile (fl p) (map sample (sort (concat (map requestTimes bs)))))) m)
       (percentileLevels (opts s)) []"
  by (simp_all add: generateStats_def Let_def foldl_reduceStep_times foldl_reduceStep_rest
        initialTotals_def)

lemma generateStats_counts: "counts (fst (generateStats bs incl s)) = cumulative s"
  by (simp add: generateStats_def Let_def)

lemma generateStats_raw: "rawRequestTimes (fst (generateStats bs incl s)) = None"
  by (simp add: generateStats_def Let_def)

lemma generateStats_state:
  "snd (generateStats bs incl s) = s\<lparr>totals := fst (generateStats bs incl s)\<rparr>"
  by (simp add: generateStats_def Let_def)

lemma Stats_new_cumulative: "cumulative (Stats_new o_merged) = None"
  by (simp add: Stats_new_def generateStats_state Let_def)

lemma Stats_new_buckets:
  "buckets (Stats_new o_merged) = replicate (bucketNum o_merged) new_Bucket"
  by (simp add: Stats_new_def generateStats_state Let_def)

lemma Stats_new_opts: "opts (Stats_new o_merged) = o_merged"
  by (simp add: Stats_new_def generateStats_state Let_def)

lemma Stats_new_totals_counts: "counts (totals (Stats_new o_merged)) = None"
  by (simp add: Stats_new_def generateStats_state generateStats_counts Let_def)

text \<open>
  C4. With latency included, \<open>_generateStats\<close> sorts all latency samples of the window
  ascending (\<open>a\<close> below is a sorted permutation of them, \<open>xs\<close> the numbers they are,
  \<open>n\<close> their count). \<open>latencyMean\<close> is \<open>Math.round(sum / n)\<close>, and 0 on an empty
  window; for samples that are not negative and whose sum is below \<open>2 ^ 52\<close> it is the
  exact quotient rounded, a half upwards. Every configured percentile level \<open>p\<close> in
  [0, 1] is mapped to 0 on an empty window, to \<open>a[0]\<close> when \<open>p\<close> is zero and to
  \<open>a[Math.ceil(p * n) - 1]\<close> otherwise. The product is the binary64 one of the source:
  the index \<open>k\<close> it gives lies between 1 and \<open>n\<close> and is at most one beside the
  ceiling of the exact product. The key of a level in the table is its number.
\<close>

theorem generateStats_latency:
  "let a = sort (concat (map requestTimes (buckets s)));
       xs = map sample a;
       n = length a;
       t = fst (generateStats (buckets s) True s)
   in sorted a \<and> mset a = mset (concat (map requestTimes (buckets s))) \<and>
      latencyMean t =
        (if n = 0 then Fin 0
         else orZero (Some (Math_round (js_div (js_sum xs) (Fin (of_nat n)))))) \<and>
      ((\<forall>x \<in> set a. 0 \<le> x) \<and> sum_list a < 2 ^ 52 \<and> 0 < n \<and> n < 2 ^ 32 \<longrightarrow>
         latencyMean t = Fin (of_int (round ((of_int (sum_list a) :: rat) / of_nat n)))) \<and>
      (\<forall>p \<in> set (percentileLevels (opts s)). 0 \<le> p \<and> p \<le> 1 \<and> n < 2 ^ 32 \<longrightarrow>
         (if n = 0 then map_of (percentiles t) (fl p) = Some (Fin 0)
          else if fl p = Fin 0 then map_of (percentiles t) (fl p) = Some (xs ! 0)
          else \<exists>k. Math_ceil (js_mul (fl p) (Fin (of_nat n))) = Fin (of_int k) \<and>
                   1 \<le> k \<and> k \<le> int n \<and> \<bar>k - \<lceil>p * of_nat n\<rceil>\<bar> \<le> 1 \<and>
                   map_of (percentiles t) (fl p) = Some (xs ! nat (k - 1))))"
proof -
  define a where "a = sort (concat (map requestTimes (buckets s)))"
  define xs where "xs = map sample a"
  define t where "t = fst (generateStats (buckets s) True s)"
  have m: "latencyMean t = orZero (Some (calculateMean xs))"
    by (simp add: t_def xs_def a_def generateStats_times)
  have pc: "map_of (percentiles t) (fl p) = Some (orZero (calculatePercentile (fl p) xs))"
    if "p \<in> set (percentileLevels (opts s))" for p
    using that
      fold_update_levels[of fl "\<lambda>q. orZero (calculatePercentile q xs)"
        "percentileLevels (opts s)" "[]" "fl p"]
    by (simp add: t_def xs_def a_def generateStats_times)
  have c1: "sorted a" by (simp add: a_def)
  have c2: "mset a = mset (concat (map requestTimes (buckets s)))" by (simp add: a_def)
  have c3: "latencyMean t =
      (if length a = 0 then Fin 0
       else orZero (Some (Math_round (js_div (js_sum xs) (Fin (of_nat (length a)))))))"
  proof (cases "a = []")
    case True
    then show ?thesis by (simp add: m xs_def calculateMean_empty)
  next
    case False
    then show ?thesis by (simp add: m calculateMean_def Let_def xs_def)
  qed
  have c4: "latencyMean t = Fin (of_int (round ((of_int (sum_list a) :: rat) / of_nat (length a))))"
    if "\<forall>x \<in> set a. 0 \<le> x" "sum_list a < 2 ^ 52" "0 < length a" "length a < 2 ^ 32"
  proof -
    from that(3) have "a \<noteq> []" by simp
    from calculateMean_exact[OF that(1,2) this that(4)] show ?thesis by (simp add: m xs_def)
  qed
  have c5: "if length a = 0 then map_of (percentiles t) (fl p) = Some (Fin 0)
          else if fl p = Fin 0 then map_of (percentiles t) (fl p) = Some (xs ! 0)
          else \<exists>k. Math_ceil (js_mul (fl p) (Fin (of_nat (length a)))) = Fin (of_int k) \<and>
                   1 \<le> k \<and> k \<le> int (length a) \<and> \<bar>k - \<lceil>p * of_nat (length a)\<rceil>\<bar> \<le> 1 \<and>
                   map_of (percentiles t) (fl p) = Some (xs ! nat (k - 1))"
    if p: "p \<in> set (percentileLevels (opts s))" "0 \<le> p" "p \<le> 1" "length a < 2 ^ 32" for p
  proof -
    have len: "length xs = length a" by (simp add: xs_def)
    have lx: "length xs < 2 ^ 32" using p(4) by (simp add: len)
    note rule = calculatePercentile_rule[OF p(2,3) lx]
    show ?thesis
    proof (cases "a = []")
      case True
      then have "xs = []" by (simp add: xs_def)
      with rule have v: "calculatePercentile (fl p) xs = None" by simp
      have "map_of (percentiles t) (fl p) = Some (Fin 0)"
        unfolding pc[OF p(1)] v orZero_None ..
      with True show ?thesis by simp
    next
      case False
      then have ne: "xs \<noteq> []" by (simp add: xs_def)
      show ?thesis
      proof (cases "fl p = Fin 0")
        case True
        with rule ne have v: "calculatePercentile (fl p) xs = Some (xs ! 0)" by simp
        have o: "orZero (Some (xs ! 0)) = xs ! 0"
          using False by (simp add: xs_def)
        have "map_of (percentiles t) (fl p) = Some (xs ! 0)"
          unfolding pc[OF p(1)] v o ..
        then show ?thesis using False True by simp
      next
        case nz: False
        with rule ne obtain k where k:
          "Math_ceil (js_mul (fl p) (Fin (of_nat (length xs)))) = Fin (of_int k)"
          "1 \<le> k" "k \<le> int (length xs)" "\<bar>k - \<lceil>p * of_nat (length xs)\<rceil>\<bar> \<le> 1"
          "calculatePercentile (fl p) xs = Some (xs ! nat (k - 1))" by auto
        have "nat (k - 1) < length a" using k(2,3) by (simp add: len)
        then have o: "orZero (Some (xs ! nat (k - 1))) = xs ! nat (k - 1)"
          by (simp add: xs_def)
        have v: "map_of (percentiles t) (fl p) = Some (xs ! nat (k - 1))"
          unfolding pc[OF p(1)] k(5) o ..
        from k(1-4) v
        have "Math_ceil (js_mul (fl p) (Fin (of_nat (length a)))) = Fin (of_int k) \<and>
                   1 \<le> k \<and> k \<le> int (length a) \<and> \<bar>k - \<lceil>p * of_nat (length a)\<rceil>\<bar> \<le> 1 \<and>
                   map_of (percentiles t) (fl p) = Some (xs ! nat (k - 1))"
          unfolding len by blast
        then show ?thesis using False nz by auto
      qed
    qed
  qed
  show ?thesis
    unfolding Let_def a_def[symmetric] xs_def[symmetric] t_def[symmetric]
    using c1 c2 c3 c4 c5 by blast
qed

text \<open>The numbers of the example window: all of them are binary64 values.\<close>

lemma percentileWindow_values:
  "fl 0 = Fin 0" "fl (1/2) = Fin (1/2)" "fl 1 = Fin 1" "fl (5/2) = Fin (5/2)" "fl 5 = Fin 5"
  "fl 10 = Fin 10" "fl 30 = Fin 30" "fl 60 = Fin 60" "fl 100 = Fin 100" "fl 150 = Fin 150"
  "sample 10 = Fin 10" "sample 20 = Fin 20" "sample 30 = Fin 30" "sample 40 = Fin 40"
  "sample 50 = Fin 50"
  using fl_dyadic[of 1 1] fl_dyadic[of 5 1] fl_of_nat[of 0] fl_of_nat[of 1] fl_of_nat[of 5]
    fl_of_nat[of 10] fl_of_nat[of 30] fl_of_nat[of 60] fl_of_nat[of 100] fl_of_nat[of 150]
    sample_nonneg[of 10] sample_nonneg[of 20] sample_nonneg[of 30] sample_nonneg[of 40]
    sample_nonneg[of 50]
  by simp_all

text \<open>
  The samples 10, 20, 30, 40, 50 with the levels 0, 0.5 and 1 give the percentiles
  10, 30 and 50 and the mean 30.
\<close>

theorem generateStats_latency_witness:
  "let a = sort (concat (map requestTimes (buckets percentileWindow)));
       t = fst (generateStats (buckets percentileWindow) True percentileWindow)
   in a = [10, 20, 30, 40, 50] \<and> sum_list a = 150 \<and> length a = 5 \<and>
      percentileLevels (opts percentileWindow) = [0, 1/2, 1] \<and>
      fl 0 = Fin 0 \<and> fl (1/2) = Fin (1/2) \<and> fl 1 = Fin 1 \<and>
      map_of (percentiles t) (Fin 0) = Some (Fin 10) \<and>
      map_of (percentiles t) (Fin (1/2)) = Some (Fin 30) \<and>
      map_of (percentiles t) (Fin 1) = Some (Fin 50) \<and>
      latencyMean t = Fin 30"
proof -
  have a: "sort (concat (map requestTimes (buckets percentileWindow))) = [10, 20, 30, 40, 50]"
    by (simp add: percentileWindow_def)
  have l: "percentileLevels (opts percentileWindow) = [0, 1/2, 1]"
    by (simp add: percentileWindow_def)
  have c: "\<lceil>(5::rat) / 2\<rceil> = 3" by (simp add: ceiling_eq_iff)
  have r: "round ((150::rat) / 5) = 30" by (simp add: round_def floor_eq_iff)
  have f: "\<lfloor>(61::rat) / 2\<rfloor> = 30" by (simp add: floor_eq_iff)
  show ?thesis
    using generateStats_latency [of percentileWindow]
    by (simp add: Let_def a l c r f percentileWindow_values js_sum_def)
qed

text \<open>
  C2. The totals that \<open>_generateStats\<close> returns never hold the raw \<open>requestTimes\<close>,
  but on a \<open>Stats\<close> as its constructor builds it they hold none of the ten
  \<open>CumulativeStats\<close> fields either, with or without latency: \<open>_cumulative\<close> is
  \<open>undefined\<close>, and \<open>Object.assign\<close> copies nothing from it.
\<close>

theorem generateStats_omits_counts:
  "counts (totals (Stats_new defaultOptions)) = None \<and>
   counts (fst (generateStats (buckets (Stats_new defaultOptions)) True
                  (Stats_new defaultOptions))) = None \<and>
   counts (fst (generateStats (buckets (Stats_new defaultOptions)) False
                  (Stats_new defaultOptions))) = None \<and>
   rawRequestTimes (fst (generateStats (buckets (Stats_new defaultOptions)) True
                  (Stats_new defaultOptions))) = None"
  by (simp add: Stats_new_totals_counts generateStats_counts generateStats_raw
        Stats_new_cumulative)

section \<open>The threshold check\<close>

lemma emit_fields [simp]:
  "stats (emit ev b) = stats b" "circuitOpen (emit ev b) = circuitOpen b"
  "circuitGeneration (emit ev b) = circuitGeneration b" "emitted (emit ev b) = emitted b @ [ev]"
  "attached (emit ev b) = attached b" "brakeOpts (emit ev b) = brakeOpts b"
  "masterCircuit (emit ev b) = masterCircuit b" "brakeFallback (emit ev b) = brakeFallback b"
  "snapshotListeners (emit ev b) = snapshotListeners b"
  "healthCheckFn (emit ev b) = healthCheckFn b"
  by (simp_all add: emit_def)

lemma Brakes_open_stats [simp]: "stats (Brakes_open b) = stats b"
  by (simp add: Brakes_open_def Let_def setHealthInterval_def resetCircuitTimeout_def)

lemma checkStats_stats [simp]: "stats (checkStats d b) = stats b"
  by (simp add: checkStats_def Let_def)

lemma Brakes_open_closed:
  "\<not> circuitOpen b \<Longrightarrow>
     circuitOpen (Brakes_open b) \<and> circuitGeneration (Brakes_open b) = circuitGeneration b + 1 \<and>
     emitted (Brakes_open b) = emitted b @ [CircuitOpen]"
  by (simp add: Brakes_open_def Let_def setHealthInterval_def resetCircuitTimeout_def)

lemma checkStats_opens_iff:
  "\<not> circuitOpen b \<Longrightarrow>
   circuitOpen (checkStats d b) \<longleftrightarrow>
     (waitThreshold (brakeOpts b) < int (total d) \<and> total d \<noteq> 0 \<and>
      (of_nat (successful d) :: rat) / of_nat (total d) < threshold (brakeOpts b))"
  by (auto simp: checkStats_def Let_def Brakes_open_closed)

lemma checkStats_below_wait:
  "int (total d) \<le> waitThreshold (brakeOpts b) \<Longrightarrow> checkStats d b = b"
  by (simp add: checkStats_def Let_def)

text \<open>
  Totals of one failure alone (\<open>total = 1\<close>, \<open>successful = 0\<close>) that an \<open>update\<close> event
  carries to \<open>_checkStats\<close> on a closed breaker with \<open>waitThreshold = 0\<close> open it exactly
  when the threshold is positive: \<open>1 > 0\<close> passes the strict comparison.
\<close>

lemma checkStats_first_failure:
  assumes "waitThreshold (brakeOpts b) = 0" "\<not> circuitOpen b" "total d = 1" "successful d = 0"
  shows "circuitOpen (checkStats d b) \<longleftrightarrow> 0 < threshold (brakeOpts b)"
  using assms by (simp add: checkStats_opens_iff)

lemma Brakes_new_fields:
  "brakeOpts (fst (Brakes_new func options ref g)) = options"
  "circuitOpen (fst (Brakes_new func options ref g)) = False"
  "circuitGeneration (fst (Brakes_new func options ref g)) = 1"
  "stats (fst (Brakes_new func options ref g)) = startSnapshots (Stats_new (statsOptions options))"
  "attached (fst (Brakes_new func options ref g)) = True"
  "emitted (fst (Brakes_new func options ref g)) = []"
  "healthInterval (fst (Brakes_new func options ref g)) = False"
  "cooldownTimers (fst (Brakes_new func options ref g)) = 0"
  by (simp_all add: Brakes_new_def Let_def register_def Brakes_fallback_def
        split: option.splits prod.splits if_splits)

lemma Brakes_new_master:
  "masterCircuit (fst (Brakes_new False options ref g)) = None"
  by (simp add: Brakes_new_def Let_def register_def Brakes_fallback_def
        split: option.splits prod.splits if_splits)

section \<open>A breaker without a master circuit\<close>

text \<open>
  C10. On a \<open>Brakes\<close> constructed without a primary function, every \<open>exec\<close> returns
  a promise rejected with the \<open>NO_FUNCTION\<close> message and leaves the breaker as it was:
  no stats are recorded and no event is emitted.
\<close>

theorem exec_without_master:
  "Brakes_exec args (fst (Brakes_new False options ref g)) =
     (Promise (Rejected (Error
        ''This instance of brakes has no master circuit. You must use a slave circuit.'')),
      fst (Brakes_new False options ref g))"
  by (simp add: Brakes_exec_def Brakes_new_master NO_FUNCTION_def)

section \<open>Recording with the cumulative counters undefined\<close>

lemma onActive_None:
  assumes "cumulative s = None" and "\<And>k. method k None = (Some TypeError, upd k, None)"
  shows "onActive method s =
     (Some TypeError, None,
      case activeBucket s of None \<Rightarrow> s
      | Some k \<Rightarrow> s\<lparr>buckets := (buckets s)[nat (activePosition s) := upd k], cumulative := None\<rparr>)"
  using assms by (simp add: onActive_def Let_def split: option.splits)

lemma Stats_success_None:
  "cumulative s = None \<Longrightarrow> Stats_success d s =
     (Some TypeError, None,
      case activeBucket s of None \<Rightarrow> s
      | Some k \<Rightarrow> s\<lparr>buckets := (buckets s)[nat (activePosition s) := k\<lparr>total := total k + 1\<rparr>],
                     cumulative := None\<rparr>)"
  unfolding Stats_success_def
  by (rule onActive_None) (simp_all add: Bucket_success_def)

lemma Stats_failure_None:
  "cumulative s = None \<Longrightarrow> Stats_failure d s =
     (Some TypeError, None,
      case activeBucket s of None \<Rightarrow> s
      | Some k \<Rightarrow> s\<lparr>buckets := (buckets s)[nat (activePosition s) := k\<lparr>total := total k + 1\<rparr>],
                     cumulative := None\<rparr>)"
  unfolding Stats_failure_def
  by (rule onActive_None) (simp_all add: Bucket_failure_def)

lemma Stats_timeout_None:
  "cumulative s = None \<Longrightarrow> Stats_timeout d s =
     (Some TypeError, None,
      case activeBucket s of None \<Rightarrow> s
      | Some k \<Rightarrow> s\<lparr>buckets := (buckets s)[nat (activePosition s) := k\<lparr>total := total k + 1\<rparr>],
                     cumulative := None\<rparr>)"
  unfolding Stats_timeout_def
  by (rule onActive_None) (simp_all add: Bucket_timeout_def)

lemma Stats_shortCircuit_None:
  "cumulative s = None \<Longrightarrow> Stats_shortCircuit s =
     (Some TypeError, None,
      case activeBucket s of None \<Rightarrow> s
      | Some k \<Rightarrow> s\<lparr>buckets := (buckets s)[nat (activePosition s) :=
                                       k\<lparr>shortCircuited := shortCircuited k + 1\<rparr>],
                     cumulative := None\<rparr>)"
  unfolding Stats_shortCircuit_def
  by (rule onActive_None) (simp_all add: Bucket_shortCircuit_def)

lemmas Stats_methods_None =
  Stats_success_None Stats_failure_None Stats_timeout_None Stats_shortCircuit_None

lemma handlers_None:
  assumes "cumulative (stats b) = None"
  shows "fst (successHandler d b) = Some TypeError"
    and "fst (failureHandler d (circuitGeneration b) b) = Some TypeError"
    and "fst (timeoutHandler d (circuitGeneration b) b) = Some TypeError"
    and "fst (recordStats Stats_shortCircuit b) = Some TypeError"
  using assms
  by (simp_all add: successHandler_def failureHandler_def timeoutHandler_def recordStats_def
        Stats_methods_None)

lemma Stats_methods_None_fields:
  assumes "cumulative s = None"
  shows "fst (snd (Stats_success d s)) = None" "cumulative (snd (snd (Stats_success d s))) = None"
    and "fst (snd (Stats_failure d s)) = None" "cumulative (snd (snd (Stats_failure d s))) = None"
    and "fst (snd (Stats_timeout d s)) = None" "cumulative (snd (snd (Stats_timeout d s))) = None"
    and "fst (snd (Stats_shortCircuit s)) = None"
        "cumulative (snd (snd (Stats_shortCircuit s))) = None"
  using assms by (simp_all add: Stats_methods_None split: option.splits)

lemma recordStats_None_snd:
  assumes "cumulative (stats b) = None"
  shows "snd (recordStats (Stats_success d) b) = b\<lparr>stats := snd (snd (Stats_success d (stats b)))\<rparr>"
    and "snd (recordStats (Stats_failure d) b) = b\<lparr>stats := snd (snd (Stats_failure d (stats b)))\<rparr>"
    and "snd (recordStats (Stats_timeout d) b) = b\<lparr>stats := snd (snd (Stats_timeout d (stats b)))\<rparr>"
    and "snd (recordStats Stats_shortCircuit b) = b\<lparr>stats := snd (snd (Stats_shortCircuit (stats b)))\<rparr>"
  using assms by (simp_all add: recordStats_def split_beta Stats_methods_None_fields)

lemma emitOutcome_None:
  assumes "cumulative (stats b) = None"
  shows "cumulative (stats (snd (emitOutcome ev b))) = None"
    and "circuitOpen (snd (emitOutcome ev b)) = circuitOpen b"
    and "circuitGeneration (snd (emitOutcome ev b)) = circuitGeneration b"
    and "emitted (snd (emitOutcome ev b)) = emitted b @ [ev]"
    and "attached (snd (emitOutcome ev b)) = attached b"
proof -
  have c: "cumulative (stats (emit e b)) = None" for e using assms by simp
  note f = Stats_methods_None_fields[OF c]
  note r = recordStats_None_snd[OF c]
  show "cumulative (stats (snd (emitOutcome ev b))) = None"
    using assms
    by (cases ev) (simp_all add: successHandler_def failureHandler_def timeoutHandler_def r
          Stats_methods_None_fields)
  show "circuitOpen (snd (emitOutcome ev b)) = circuitOpen b"
    by (cases ev) (simp_all add: successHandler_def failureHandler_def timeoutHandler_def r)
  show "circuitGeneration (snd (emitOutcome ev b)) = circuitGeneration b"
    by (cases ev) (simp_all add: successHandler_def failureHandler_def timeoutHandler_def r)
  show "emitted (snd (emitOutcome ev b)) = emitted b @ [ev]"
    by (cases ev) (simp_all add: successHandler_def failureHandler_def timeoutHandler_def r)
  show "attached (snd (emitOutcome ev b)) = attached b"
    by (cases ev) (simp_all add: successHandler_def failureHandler_def timeoutHandler_def r)
qed

lemma emitOutcome_None_throws:
  assumes "cumulative (stats b) = None" "attached b"
  shows "fst (emitOutcome (Success d) b) = Some TypeError"
    and "fst (emitOutcome (Failure d err (circuitGeneration b)) b) = Some TypeError"
    and "fst (emitOutcome (Timeout d err (circuitGeneration b)) b) = Some TypeError"
proof -
  have c: "cumulative (stats (emit ev b)) = None" for ev using assms by simp
  show "fst (emitOutcome (Success d) b) = Some TypeError"
    using assms(2) handlers_None(1)[OF c] by simp
  show "fst (emitOutcome (Failure d err (circuitGeneration b)) b) = Some TypeError"
    using assms(2) handlers_None(2)[OF c, of d "Failure d err (circuitGeneration b)"] by simp
  show "fst (emitOutcome (Timeout d err (circuitGeneration b)) b) = Some TypeError"
    using assms(2) handlers_None(3)[OF c, of d "Timeout d err (circuitGeneration b)"] by simp
qed

lemma emitAll_None:
  assumes "cumulative (stats b) = None"
  shows "cumulative (stats (snd (emitAll evs b))) = None \<and>
         circuitOpen (snd (emitAll evs b)) = circuitOpen b \<and>
         circuitGeneration (snd (emitAll evs b)) = circuitGeneration b \<and>
         emitted (snd (emitAll evs b)) = emitted b @ evs"
  using assms
proof (induction evs arbitrary: b)
  case Nil
  then show ?case by simp
next
  case (Cons ev evs)
  have c: "cumulative (stats (snd (emitOutcome ev b))) = None"
    using Cons.prems by (rule emitOutcome_None(1))
  from Cons.IH[OF c] emitOutcome_None(2-4)[OF Cons.prems, of ev]
  show ?case by (simp add: split_beta Let_def)
qed

lemma startSnapshots_fields [simp]:
  "cumulative (startSnapshots s) = cumulative s" "buckets (startSnapshots s) = buckets s"
  "opts (startSnapshots s) = opts s" "totals (startSnapshots s) = totals s"
  by (simp_all add: startSnapshots_def)

lemma Brakes_new_cumulative:
  "cumulative (stats (fst (Brakes_new func options ref g))) = None"
  by (simp add: Brakes_new_fields Stats_new_cumulative)

lemma emitAll_None_throws:
  assumes "cumulative (stats b) = None" "attached b"
    and "\<forall>ev \<in> set evs. (\<exists>d. ev = Success d) \<or>
           (\<exists>d err. ev = Failure d err (circuitGeneration b)) \<or>
           (\<exists>d err. ev = Timeout d err (circuitGeneration b))"
  shows "fst (emitAll evs b) = map (\<lambda>ev. Some TypeError) evs"
  using assms
proof (induction evs arbitrary: b)
  case Nil
  then show ?case by simp
next
  case (Cons ev evs)
  have 1: "fst (emitOutcome ev b) = Some TypeError"
    using Cons.prems(3) emitOutcome_None_throws[OF Cons.prems(1,2)] by auto
  note n = emitOutcome_None[OF Cons.prems(1), of ev]
  have 2: "fst (emitAll evs (snd (emitOutcome ev b))) = map (\<lambda>ev. Some TypeError) evs"
  proof (rule Cons.IH)
    show "cumulative (stats (snd (emitOutcome ev b))) = None" by (rule n(1))
    show "attached (snd (emitOutcome ev b))" using n(5) Cons.prems(2) by simp
    show "\<forall>ev' \<in> set evs. (\<exists>d. ev' = Success d) \<or>
           (\<exists>d err. ev' = Failure d err (circuitGeneration (snd (emitOutcome ev b)))) \<or>
           (\<exists>d err. ev' = Timeout d err (circuitGeneration (snd (emitOutcome ev b))))"
      using Cons.prems(3) n(3) by simp
  qed
  show ?case using 1 2 by (simp add: split_beta Let_def)
qed

text \<open>
  C3. On \<open>new Brakes(fn, {waitThreshold: 4, threshold: 0.5})\<close> the outcomes S, F, F, F, F
  do not open the breaker: each recording throws a \<open>TypeError\<close> in the bucket before
  \<open>_update()\<close>, no \<open>update\<close> event reaches \<open>_checkStats\<close>, and the breaker stays
  closed in generation 1, with only the five outcome events emitted.
\<close>

theorem threshold_scenario_never_opens:
  "fst (emitAll scenarioEvents scenarioBrakes) =
     [Some TypeError, Some TypeError, Some TypeError, Some TypeError, Some TypeError] \<and>
   \<not> circuitOpen (snd (emitAll scenarioEvents scenarioBrakes)) \<and>
   circuitGeneration (snd (emitAll scenarioEvents scenarioBrakes)) = 1 \<and>
   emitted (snd (emitAll scenarioEvents scenarioBrakes)) = scenarioEvents"
proof -
  have c: "cumulative (stats scenarioBrakes) = None"
    by (simp add: scenarioBrakes_def Brakes_new_cumulative)
  have f: "circuitGeneration scenarioBrakes = 1" "\<not> circuitOpen scenarioBrakes"
    "emitted scenarioBrakes = []" "attached scenarioBrakes"
    by (simp_all add: scenarioBrakes_def Brakes_new_fields)
  have e: "fst (emitAll scenarioEvents scenarioBrakes) = map (\<lambda>ev. Some TypeError) scenarioEvents"
    by (rule emitAll_None_throws[OF c f(4)]) (simp add: scenarioEvents_def f(1))
  have l: "map (\<lambda>ev. Some TypeError) scenarioEvents =
           [Some TypeError, Some TypeError, Some TypeError, Some TypeError, Some TypeError]"
    by (simp add: scenarioEvents_def)
  show ?thesis
    using emitAll_None[OF c, of scenarioEvents] f e l by simp
qed

section \<open>Snapshots\<close>

lemma Stats_snapshot_None:
  "cumulative s = None \<Longrightarrow>
     Stats_snapshot s = (fst (generateStats (buckets s) True s), Some TypeError,
                         snd (generateStats (buckets s) True s))"
  by (simp add: Stats_snapshot_def resetDerivs_def generateStats_state split_beta Let_def)

lemma resetDerivs_defined:
  "cumulative s = Some c \<Longrightarrow>
     resetDerivs s =
       (None, s\<lparr>cumulative := Some (c\<lparr>countTotalDeriv := 0, countSuccessDeriv := 0,
          countFailureDeriv := 0, countTimeoutDeriv := 0, countShortCircuitedDeriv := 0\<rparr>)\<rparr>)"
  by (simp add: resetDerivs_def)

text \<open>
  C5. On a \<open>Stats\<close> as the constructor builds it, a snapshot tick emits the \<open>snapshot\<close>
  event and then throws a \<open>TypeError\<close> out of \<open>_resetDerivs\<close>: there is no cumulative
  object whose derivatives could be reset, and the snapshot carries no cumulative fields.
  The same tick on a new \<open>Brakes\<close> throws out of the timer callback.
\<close>

theorem snapshot_throws:
  "fst (snd (Stats_snapshot (Stats_new defaultOptions))) = Some TypeError \<and>
   cumulative (snd (snd (Stats_snapshot (Stats_new defaultOptions)))) = None \<and>
   counts (fst (Stats_snapshot (Stats_new defaultOptions))) = None \<and>
   fst (snapshotTick 0 (Brakes_new True defaultBrakesOptions 0 GlobalStats_new)) = Some TypeError"
proof -
  have c: "cumulative (Stats_new defaultOptions) = None" by (rule Stats_new_cumulative)
  have b: "cumulative (stats (fst (Brakes_new True defaultBrakesOptions 0 GlobalStats_new))) = None"
    by (rule Brakes_new_cumulative)
  show ?thesis
    by (simp add: Stats_snapshot_None[OF c] Stats_snapshot_None[OF b] generateStats_state
          generateStats_counts c snapshotTick_def split_beta Let_def)
qed

section \<open>The invariant of a bucket\<close>

text \<open>With a cumulative object to write to, every method of a bucket keeps the invariant.\<close>

lemma Bucket_methods_defined_invariant:
  assumes "bucketInvariant k"
  shows "bucketInvariant (fst (snd (Bucket_success rt k (Some c))))"
    and "bucketInvariant (fst (snd (Bucket_failure rt k (Some c))))"
    and "bucketInvariant (fst (snd (Bucket_timeout rt k (Some c))))"
    and "bucketInvariant (fst (snd (Bucket_shortCircuit k (Some c))))"
  using assms
  by (simp_all add: bucketInvariant_def Bucket_success_def Bucket_failure_def Bucket_timeout_def
        Bucket_shortCircuit_def)

lemma activeBucket_Stats_new:
  "0 < bucketNum o_merged \<Longrightarrow> activeBucket (Stats_new o_merged) = Some new_Bucket"
  by (simp add: activeBucket_def activePosition_def Stats_new_buckets Stats_new_opts)

lemma activeBucket_update:
  "activeBucket s = Some k \<Longrightarrow>
   activeBucket (s\<lparr>buckets := (buckets s)[nat (activePosition s) := k'], cumulative := c\<rparr>) =
     Some k'"
  by (auto simp: activeBucket_def activePosition_def split: if_splits)

text \<open>
  C9. The buckets of a \<open>Stats\<close> hold an undefined reference, and on such a bucket
  \<open>failure\<close> breaks the invariant: after \<open>new Stats({}).failure(5)\<close> the active bucket
  has \<open>total = 1\<close> with \<open>successful = failed = timedOut = 0\<close> and no latency sample,
  and the call has thrown a \<open>TypeError\<close>.
\<close>

theorem bucket_invariant_broken:
  "fst (Stats_failure 5 (Stats_new defaultOptions)) = Some TypeError \<and>
   activeBucket (snd (snd (Stats_failure 5 (Stats_new defaultOptions)))) =
     Some \<lparr> failed = 0, successful = 0, total = 1, shortCircuited = 0, timedOut = 0,
            requestTimes = [] \<rparr> \<and>
   Bucket_failure 5 new_Bucket None =
     (Some TypeError,
      \<lparr> failed = 0, successful = 0, total = 1, shortCircuited = 0, timedOut = 0,
        requestTimes = [] \<rparr>, None)"
proof -
  have c: "cumulative (Stats_new defaultOptions) = None" by (rule Stats_new_cumulative)
  have a: "activeBucket (Stats_new defaultOptions) = Some new_Bucket"
    by (rule activeBucket_Stats_new) (simp add: defaultOptions_def)
  show ?thesis
    by (simp add: Stats_failure_None[OF c] a activeBucket_update[OF a] new_Bucket_def
          Bucket_failure_def)
qed

section \<open>A first failure with no wait threshold\<close>







section \<open>Calls on an open breaker\<close>

lemma Brakes_open_fields [simp]:
  "masterCircuit (Brakes_open b) = masterCircuit b" "brakeFallback (Brakes_open b) = brakeFallback b"
  "attached (Brakes_open b) = attached b" "brakeOpts (Brakes_open b) = brakeOpts b"
  "snapshotListeners (Brakes_open b) = snapshotListeners b"
  by (simp_all add: Brakes_open_def Let_def setHealthInterval_def resetCircuitTimeout_def emit_def)

lemma Brakes_new_master_some:
  "fallback options = None \<Longrightarrow>
     masterCircuit (fst (Brakes_new True options ref g)) = Some (Circuit_new options) \<and>
     brakeFallback (fst (Brakes_new True options ref g)) = None"
  by (simp add: Brakes_new_def Let_def register_def split: prod.splits if_splits)

lemma Circuit_exec_None:
  assumes "cumulative (stats b) = None" "circuitOpen b"
  shows "fst (Circuit_exec args c b) = Throws TypeError"
    and "cumulative (stats (snd (Circuit_exec args c b))) = None"
    and "circuitOpen (snd (Circuit_exec args c b))"
    and "masterCircuit (snd (Circuit_exec args c b)) = masterCircuit b"
    and "totals (stats (snd (Circuit_exec args c b))) = totals (stats b)"
    and "emitted (snd (Circuit_exec args c b)) = emitted b @ [Exec]"
proof -
  have c: "cumulative (stats (emit Exec b)) = None" using assms by simp
  have f: "fst (recordStats Stats_shortCircuit (emit Exec b)) = Some TypeError"
    by (rule handlers_None(4)[OF c])
  note s = recordStats_None_snd(4)[OF c]
  have t: "totals (snd (snd (Stats_shortCircuit (stats b)))) = totals (stats b)"
    using assms(1) by (simp add: Stats_shortCircuit_None split: option.splits)
  show "fst (Circuit_exec args c b) = Throws TypeError"
    using assms(2) f by (simp add: Circuit_exec_def Let_def split_beta)
  show "cumulative (stats (snd (Circuit_exec args c b))) = None"
    using assms f s by (simp add: Circuit_exec_def Let_def split_beta Stats_methods_None_fields)
  show "circuitOpen (snd (Circuit_exec args c b))"
    using assms(2) f s by (simp add: Circuit_exec_def Let_def split_beta)
  show "masterCircuit (snd (Circuit_exec args c b)) = masterCircuit b"
    using assms(2) f s by (simp add: Circuit_exec_def Let_def split_beta)
  show "totals (stats (snd (Circuit_exec args c b))) = totals (stats b)"
    using assms(2) f s t by (simp add: Circuit_exec_def Let_def split_beta)
  show "emitted (snd (Circuit_exec args c b)) = emitted b @ [Exec]"
    using assms(2) f s by (simp add: Circuit_exec_def Let_def split_beta)
qed

lemma execTimes_None:
  assumes "cumulative (stats b) = None" "circuitOpen b" "masterCircuit b = Some c"
  shows "fst (execTimes n args b) = replicate n (Throws TypeError) \<and>
         totals (stats (snd (execTimes n args b))) = totals (stats b)"
  using assms
proof (induction n arbitrary: b)
  case 0
  then show ?case by simp
next
  case (Suc n)
  note e = Circuit_exec_None[OF Suc.prems(1,2), of args c]
  have x: "Brakes_exec args b = Circuit_exec args c b"
    using Suc.prems(3) by (simp add: Brakes_exec_def)
  have ih: "fst (execTimes n args (snd (Circuit_exec args c b))) = replicate n (Throws TypeError) \<and>
        totals (stats (snd (execTimes n args (snd (Circuit_exec args c b))))) =
        totals (stats (snd (Circuit_exec args c b)))"
    by (rule Suc.IH) (simp_all add: e Suc.prems(3))
  show ?case using ih e(1,5) by (simp add: x split_beta Let_def)
qed

lemma defaultBrakesOptions_fields [simp]:
  "fallback defaultBrakesOptions = None" "registerGlobal defaultBrakesOptions"
  "statsOptions defaultBrakesOptions = defaultOptions" "bucketNum defaultOptions = 60"
  "isFailure defaultBrakesOptions = None" "threshold defaultBrakesOptions = 1/2"
  "waitThreshold defaultBrakesOptions = 100" "name defaultBrakesOptions = ''defaultBrake''"
  "modifyError defaultBrakesOptions"
  by (simp_all add: defaultBrakesOptions_def defaultOptions_def)

lemma defaultBrakes_fields:
  "cumulative (stats defaultBrakes) = None" "\<not> circuitOpen defaultBrakes"
  "circuitGeneration defaultBrakes = 1" "attached defaultBrakes"
  "masterCircuit defaultBrakes = Some (Circuit_new defaultBrakesOptions)"
  "brakeFallback defaultBrakes = None"
  "activeBucket (stats defaultBrakes) = Some new_Bucket"
  "counts (totals (stats defaultBrakes)) = None"
  "brakeOpts defaultBrakes = defaultBrakesOptions"
proof -
  show "cumulative (stats defaultBrakes) = None"
    by (simp add: defaultBrakes_def Brakes_new_cumulative)
  show "\<not> circuitOpen defaultBrakes" "circuitGeneration defaultBrakes = 1"
    "attached defaultBrakes" "brakeOpts defaultBrakes = defaultBrakesOptions"
    by (simp_all add: defaultBrakes_def Brakes_new_fields)
  show "masterCircuit defaultBrakes = Some (Circuit_new defaultBrakesOptions)"
    "brakeFallback defaultBrakes = None"
    using Brakes_new_master_some[of defaultBrakesOptions 0 GlobalStats_new]
    by (simp_all add: defaultBrakes_def)
  show "activeBucket (stats defaultBrakes) = Some new_Bucket"
    by (simp add: defaultBrakes_def Brakes_new_fields activeBucket_def activePosition_def
          Stats_new_buckets Stats_new_opts)
  show "counts (totals (stats defaultBrakes)) = None"
    by (simp add: defaultBrakes_def Brakes_new_fields Stats_new_totals_counts)
qed

lemma openedBrakes_fields:
  "cumulative (stats openedBrakes) = None" "circuitOpen openedBrakes"
  "circuitGeneration openedBrakes = 2" "attached openedBrakes"
  "masterCircuit openedBrakes = Some (Circuit_new defaultBrakesOptions)"
  "brakeFallback openedBrakes = None"
  "activeBucket (stats openedBrakes) = Some new_Bucket"
  "counts (totals (stats openedBrakes)) = None"
  "brakeOpts openedBrakes = defaultBrakesOptions"
  using Brakes_open_closed[OF defaultBrakes_fields(2)]
  by (simp_all add: openedBrakes_def defaultBrakes_fields)

text \<open>
  C6. On an open breaker without fallback, as the constructor builds it, ten calls of
  \<open>exec\<close> throw ten \<open>TypeError\<close>s out of \<open>_stats.shortCircuit()\<close>; none returns a
  promise rejected with a \<open>CircuitBrokenError\<close>, and the totals hold no
  \<open>countShortCircuited\<close> to increase.
\<close>

theorem open_exec_throws:
  "circuitOpen openedBrakes \<and> brakeFallback openedBrakes = None \<and>
   fst (execTimes 10 [] openedBrakes) = replicate 10 (Throws TypeError) \<and>
   counts (totals (stats (snd (execTimes 10 [] openedBrakes)))) = None"
  using execTimes_None[OF openedBrakes_fields(1,2,5), of 10 "[]"]
  by (simp add: openedBrakes_fields)

section \<open>Outcomes of an older generation\<close>

lemma recordStats_stats: "stats (snd (recordStats method b)) = snd (snd (method (stats b)))"
  by (simp add: recordStats_def split_beta Let_def split: option.splits)

lemma Stats_update_buckets:
  "buckets (snd (Stats_update s)) = buckets s" "opts (snd (Stats_update s)) = opts s"
  by (simp_all add: Stats_update_def generateStats_state)

lemma activeBucket_cong:
  "buckets s' = buckets s \<Longrightarrow> opts s' = opts s \<Longrightarrow> activeBucket s' = activeBucket s"
  by (simp add: activeBucket_def activePosition_def)

lemma activeBucket_onActive:
  assumes "activeBucket s = Some k"
  shows "activeBucket (snd (snd (onActive method s))) = Some (fst (snd (method k (cumulative s))))"
proof -
  obtain e k' c' where m: "method k (cumulative s) = (e, k', c')" by (cases "method k (cumulative s)")
  let ?s1 = "s\<lparr>buckets := (buckets s)[nat (activePosition s) := k'], cumulative := c'\<rparr>"
  have a: "activeBucket ?s1 = Some k'" by (rule activeBucket_update[OF assms])
  show ?thesis
  proof (cases e)
    case None
    have "activeBucket (snd (Stats_update ?s1)) = activeBucket ?s1"
      by (rule activeBucket_cong) (simp_all add: Stats_update_buckets)
    with None m a assms show ?thesis by (simp add: onActive_def split_beta Let_def)
  next
    case (Some err)
    with m a assms show ?thesis by (simp add: onActive_def)
  qed
qed

lemma Bucket_success_total: "total (fst (snd (Bucket_success d k cs))) = total k + 1"
  by (simp add: Bucket_success_def Let_def split: option.splits)

text \<open>
  C1 (amended). A \<open>failure\<close> or \<open>timeout\<close> event whose \<open>execGeneration\<close> differs
  from the breaker's current \<open>circuitGeneration\<close> is dropped: the event is emitted,
  its handler records nothing and \<open>Stats\<close> stays as it was. A \<open>success\<close> event
  carries no generation and is forwarded to \<open>Stats\<close> whatever generation its call
  started in: the active bucket's \<open>total\<close> goes up by one.
\<close>

theorem stale_outcomes_dropped:
  assumes "execGeneration \<noteq> circuitGeneration b"
  shows "emitOutcome (Failure d err execGeneration) b =
           (None, emit (Failure d err execGeneration) b) \<and>
         emitOutcome (Timeout d err execGeneration) b =
           (None, emit (Timeout d err execGeneration) b) \<and>
         stats (emit (Failure d err execGeneration) b) = stats b \<and>
         stats (emit (Timeout d err execGeneration) b) = stats b \<and>
         (attached b \<longrightarrow> activeBucket (stats b) = Some k \<longrightarrow>
            map_option total (activeBucket (stats (snd (emitOutcome (Success d) b)))) =
              Some (total k + 1))"
proof -
  have "activeBucket (stats (snd (emitOutcome (Success d) b))) =
        Some (fst (snd (Bucket_success d k (cumulative (stats b)))))"
    if "attached b" "activeBucket (stats b) = Some k"
    using that(1) activeBucket_onActive[OF that(2), of "Bucket_success d"]
    by (simp add: successHandler_def recordStats_stats Stats_success_def)
  then show ?thesis
    using assms by (simp add: failureHandler_def timeoutHandler_def Bucket_success_total)
qed

theorem stale_outcomes_dropped_witness:
  "(1::nat) \<noteq> circuitGeneration openedBrakes \<and> attached openedBrakes \<and>
   activeBucket (stats openedBrakes) = Some new_Bucket \<and>
   emitOutcome (Failure 5 (Error ''down'') 1) openedBrakes =
     (None, emit (Failure 5 (Error ''down'') 1) openedBrakes) \<and>
   emitOutcome (Timeout 5 (TimeOutError TIMEOUT) 1) openedBrakes =
     (None, emit (Timeout 5 (TimeOutError TIMEOUT) 1) openedBrakes) \<and>
   stats (emit (Failure 5 (Error ''down'') 1) openedBrakes) = stats openedBrakes \<and>
   map_option total (activeBucket (stats (snd (emitOutcome (Success 5) openedBrakes)))) = Some 1"
proof -
  have h: "(1::nat) \<noteq> circuitGeneration openedBrakes" "attached openedBrakes"
    "activeBucket (stats openedBrakes) = Some new_Bucket"
    by (simp_all add: openedBrakes_fields)
  have t: "total new_Bucket = 0" by (simp add: new_Bucket_def)
  show ?thesis
    using stale_outcomes_dropped[OF h(1), of 5 "Error ''down''" new_Bucket]
          stale_outcomes_dropped[OF h(1), of 5 "TimeOutError TIMEOUT" new_Bucket] h t
    by simp
qed

text \<open>
  The claim as stated fails for \<open>success\<close>: a call started in generation 1 that
  succeeds after the breaker has moved to generation 2 still increments the window
  counter \<open>total\<close>.
\<close>

theorem stale_success_recorded:
  "circuitGeneration openedBrakes = 2 \<and>
   map_option total (activeBucket (stats openedBrakes)) = Some 0 \<and>
   map_option total (activeBucket (stats (snd (Circuit_settle (Fulfils 7 5) 1 []
       (Circuit_new defaultBrakesOptions) openedBrakes)))) = Some 1"
proof -
  let ?b1 = "snd (emitOutcome (Success 5) openedBrakes)"
  have c: "cumulative (stats openedBrakes) = None" by (rule openedBrakes_fields(1))
  have e: "fst (emitOutcome (Success 5) openedBrakes) = Some TypeError"
    by (rule emitOutcome_None_throws(1)[OF c openedBrakes_fields(4)])
  have g: "circuitGeneration ?b1 = 2" "attached ?b1"
    using emitOutcome_None(3,5)[OF c, of "Success 5"] by (simp_all add: openedBrakes_fields)
  have a: "activeBucket (stats ?b1) = Some (fst (snd (Bucket_success 5 new_Bucket None)))"
    using activeBucket_onActive[OF openedBrakes_fields(7), of "Bucket_success 5"]
    by (simp add: openedBrakes_fields successHandler_def recordStats_stats Stats_success_def)
  have s: "Circuit_settle (Fulfils 7 5) 1 [] (Circuit_new defaultBrakesOptions) openedBrakes =
           execCatch TypeError 5 1 [] (Circuit_new defaultBrakesOptions) ?b1"
    using e by (simp add: Circuit_settle_def split_beta)
  have x: "stats (snd (execCatch TypeError 5 1 [] (Circuit_new defaultBrakesOptions) ?b1)) =
           stats ?b1"
    using g by (simp add: execCatch_def isTimeOutError_def Circuit_new_def failureHandler_def
          split_beta split: option.splits)
  have r: "map_option total (activeBucket (stats ?b1)) = Some 1"
    unfolding a by (simp add: Bucket_success_total new_Bucket_def)
  show ?thesis
    unfolding s x r by (simp add: openedBrakes_fields new_Bucket_def)
qed

section \<open>The registry\<close>

lemma registeredWorld_fields:
  "snapshotListeners (fst registeredWorld) = [0]"
  "brakesInstances (snd registeredWorld) = [0]"
  "bound (snd registeredWorld) = 1"
  "rawStream (snd registeredWorld) = []"
  "\<not> rawPaused (snd registeredWorld)"
  by (simp_all add: registeredWorld_def Brakes_new_def Let_def register_def GlobalStats_new_def
        Circuit_new_def split_beta)

lemma deregisteredWorld_fields:
  "snapshotListeners (fst deregisteredWorld) = [0]"
  "brakesInstances (snd deregisteredWorld) = []"
  "rawStream (snd deregisteredWorld) = []"
  "\<not> rawPaused (snd deregisteredWorld)"
  by (simp_all add: deregisteredWorld_def deregister_def Let_def registeredWorld_fields
        removeListener_def)

lemma snapshotTick_rawStream:
  "rawStream (snd (snd (snapshotTick now w))) =
     rawStream (snd (snapshotHandler (fst (Stats_snapshot (stats (fst w)))) now
        ((fst w)\<lparr>stats := snd (snd (Stats_snapshot (stats (fst w))))\<rparr>, snd w)))"
  by (simp add: snapshotTick_def split_beta Let_def)

lemma snapshotHandler_one_listener:
  "snapshotListeners (fst w) = [fn] \<Longrightarrow> \<not> rawPaused (snd w) \<Longrightarrow>
     length (rawStream (snd (snapshotHandler d now w))) = length (rawStream (snd w)) + 1"
  by (simp add: snapshotHandler_def Let_def globalListener_def)

lemma snapshotHandler_no_listener:
  "snapshotListeners (fst w) = [] \<Longrightarrow> rawStream (snd (snapshotHandler d now w)) = rawStream (snd w)"
  by (simp add: snapshotHandler_def Let_def)

text \<open>
  A push pauses the raw stream, a paused raw stream drops what \<open>_globalListener\<close> is
  given, and \<open>drain\<close> resumes it.
\<close>

lemma globalListener_paused:
  "\<not> rawPaused g \<Longrightarrow>
     rawStream (globalListener env g) = rawStream g @ [env] \<and> rawPaused (globalListener env g)"
  "rawPaused g \<Longrightarrow> globalListener env g = g"
  by (simp_all add: globalListener_def)

lemma snapshotHandler_paused:
  assumes "rawPaused (snd w)"
  shows "snd (snapshotHandler d now w) = snd w"
proof -
  have "fold (\<lambda>fn. globalListener env) ls g = g" if "rawPaused g" for env and ls :: "nat list" and g
    using that by (induction ls) (simp_all add: globalListener_paused(2))
  with assms show ?thesis by (simp add: snapshotHandler_def Let_def)
qed

lemma drain_resumes: "\<not> rawPaused (drain g) \<and> rawStream (drain g) = rawStream g"
  by (simp add: drain_def)

text \<open>
  \<open>destroy()\<close> itself silences the breaker, through \<open>removeAllListeners\<close>.
\<close>

lemma destroy_removes_listeners:
  "snapshotListeners (fst (destroy ref w)) = [] \<and> \<not> attached (fst (destroy ref w)) \<and>
   rawStream (snd (snd (snapshotTick now (destroy ref w)))) = rawStream (snd w)"
  by (simp add: destroy_def split_beta snapshotTick_rawStream snapshotHandler_no_listener
        deregister_def Let_def)

text \<open>
  C8. \<open>deregister\<close> takes the breaker off the list, and \<open>instanceCount\<close> is back at
  its value before the registration, but the listener stays subscribed: \<open>removeListener\<close>
  is given a new function object from \<open>bind\<close>, not the one \<open>register\<close> subscribed.
  A snapshot that the breaker emits after \<open>deregister\<close> is still pushed onto the raw
  stream.
\<close>

theorem deregister_keeps_listener:
  "instanceCount GlobalStats_new = 0 \<and> instanceCount (snd registeredWorld) = 1 \<and>
   instanceCount (snd deregisteredWorld) = 0 \<and>
   snapshotListeners (fst registeredWorld) = [0] \<and>
   snapshotListeners (fst deregisteredWorld) = [0] \<and>
   rawStream (snd deregisteredWorld) = [] \<and>
   length (rawStream (snd (snapshotHandler (totals (stats (fst deregisteredWorld))) 0
                              deregisteredWorld))) = 1 \<and>
   length (rawStream (snd (snd (snapshotTick 0 deregisteredWorld)))) = 1"
  by (simp add: instanceCount_def GlobalStats_new_def registeredWorld_fields
        deregisteredWorld_fields snapshotTick_rawStream snapshotHandler_one_listener)

end
